theory Spec2Isabelle
  imports Complex_Main
begin

section \<open>Errors and tables\<close>

text \<open>
  Python exceptions are values. Every \<^verbatim>\<open>raise\<close> of the two modules, and every
  exception of the pandas and numpy calls they make, is a branch that returns \<open>Inl\<close>.
\<close>

datatype error =
  ValueError string
  | NotImplementedError
  | KeyError
  | IndexError
  | TypeError
  | OverflowError

text \<open>
  A float (a Python \<^verbatim>\<open>float\<close>, a numpy \<^verbatim>\<open>float64\<close>): a finite number, an infinity or NaN.
  A zero's sign is not kept. The comparisons are those of floats: NaN is neither below nor
  equal to anything.
\<close>

datatype float64 = Finite real | PosInf | NegInf | NaN

fun float_less :: "float64 \<Rightarrow> float64 \<Rightarrow> bool" where
  "float_less (Finite a) (Finite b) = (a < b)"
| "float_less NegInf (Finite _) = True"
| "float_less NegInf PosInf = True"
| "float_less (Finite _) PosInf = True"
| "float_less _ _ = False"

definition float_le :: "float64 \<Rightarrow> float64 \<Rightarrow> bool" where
  "float_le a b = (float_less a b \<or> (a = b \<and> a \<noteq> NaN))"

text \<open>The first error of a list of results, as a list comprehension raises it.\<close>

fun sequence :: "(error + 'a) list \<Rightarrow> error + 'a list" where
  "sequence [] = Inr []"
| "sequence (Inl e # _) = Inl e"
| "sequence (Inr x # rs) = (case sequence rs of Inl e \<Rightarrow> Inl e | Inr xs \<Rightarrow> Inr (x # xs))"

section \<open>mlos\_core.optimizers.optimizer: BaseOptimizer\<close>

text \<open>
  A table of configurations (\<^verbatim>\<open>pd.DataFrame\<close>) is its rows in order, each with its index
  label; the optimizer never looks inside a row, so the row type \<open>'c\<close> is left open.
  A \<^verbatim>\<open>pd.Series\<close> of scores is its values in order, each a float (NaN included) with its
  index label.
  The context type \<open>'x\<close> is left open too; \<open>None\<close> is Python's \<^verbatim>\<open>None\<close>.
\<close>

type_synonym 'c frame = "(nat \<times> 'c) list"
type_synonym series = "(nat \<times> float64) list"
type_synonym ('c, 'x) observation = "'c frame \<times> series \<times> 'x option"

text \<open>
  The space adapter is a collaborator: its two spaces and its two mappings, each of
  which may raise.
\<close>

record ('s, 'c) base_space_adapter =
  orig_parameter_space :: 's
  target_parameter_space :: 's
  transform :: "'c frame \<Rightarrow> error + 'c frame"
  inverse_transform :: "'c frame \<Rightarrow> error + 'c frame"

text \<open>
  The state of a \<^verbatim>\<open>BaseOptimizer\<close>. \<open>subclass_state\<close> is whatever the concrete
  optimizer keeps beside the fields of the base class.
\<close>

record ('s, 'c, 'x, 'u) base_optimizer =
  parameter_space :: 's
  optimizer_parameter_space :: 's
  space_adapter :: "('s, 'c) base_space_adapter option"
  observations :: "('c, 'x) observation list"
  pending_observations :: "('c frame \<times> 'x option) list"
  subclass_state :: 'u

text \<open>
  The abstract methods \<^verbatim>\<open>_register\<close>, \<^verbatim>\<open>_suggest\<close> and \<^verbatim>\<open>register_pending\<close>: a concrete
  optimizer supplies them. Each reads and updates the subclass's own state and either
  returns or raises; the state it leaves behind is kept in both cases. The fields of the
  base class belong to the base class: the hooks do not get them.
\<close>

record ('c, 'x, 'u) concrete_optimizer =
  subclass_register ::
    "'u \<Rightarrow> 'c frame \<Rightarrow> series \<Rightarrow> 'x option \<Rightarrow> (error + unit) \<times> 'u"
  subclass_suggest :: "'u \<Rightarrow> 'x option \<Rightarrow> (error + 'c frame) \<times> 'u"
  subclass_register_pending ::
    "'u \<Rightarrow> 'c frame \<Rightarrow> 'x option \<Rightarrow> (error + unit) \<times> 'u"

text \<open>
  \<^verbatim>\<open>__init__\<close>: the fields are set, then a supplied adapter whose original space differs
  from the parameter space raises \<^verbatim>\<open>ValueError\<close>. \<open>u\<close> is the state the subclass starts in.
\<close>

definition init ::
  "'s \<Rightarrow> ('s, 'c) base_space_adapter option \<Rightarrow> 'u \<Rightarrow> error + ('s, 'c, 'x, 'u) base_optimizer"
where
  "init parameter_space' space_adapter' u =
     (case space_adapter' of
        None \<Rightarrow>
          Inr \<lparr>parameter_space = parameter_space',
               optimizer_parameter_space = parameter_space',
               space_adapter = None, observations = [], pending_observations = [],
               subclass_state = u\<rparr>
      | Some a \<Rightarrow>
          if orig_parameter_space a \<noteq> parameter_space'
          then Inl (ValueError ''Given parameter space differs from the one given to space adapter'')
          else Inr \<lparr>parameter_space = parameter_space',
                    optimizer_parameter_space = target_parameter_space a,
                    space_adapter = Some a, observations = [], pending_observations = [],
                    subclass_state = u\<rparr>)"

text \<open>
  \<^verbatim>\<open>register\<close>: the triple is appended first; then the adapter's inverse transform (if there
  is an adapter) and the subclass's \<^verbatim>\<open>_register\<close> run. An exception of either leaves the
  appended triple in place, so the method returns its outcome together with the state.
\<close>

definition register ::
  "('c, 'x, 'u) concrete_optimizer \<Rightarrow> ('s, 'c, 'x, 'u) base_optimizer \<Rightarrow> 'c frame \<Rightarrow> series \<Rightarrow> 'x option
     \<Rightarrow> (error + unit) \<times> ('s, 'c, 'x, 'u) base_optimizer"
where
  "register sub self configurations scores ctx =
     (let self1 = self\<lparr>observations := observations self @ [(configurations, scores, ctx)]\<rparr>
      in case (case space_adapter self1 of
                 None \<Rightarrow> Inr configurations
               | Some a \<Rightarrow> inverse_transform a configurations) of
           Inl e \<Rightarrow> (Inl e, self1)
         | Inr configurations' \<Rightarrow>
             (case subclass_register sub (subclass_state self1) configurations' scores ctx of
                (r, u) \<Rightarrow> (r, self1\<lparr>subclass_state := u\<rparr>)))"

text \<open>\<^verbatim>\<open>suggest\<close>: the subclass proposes, the adapter (if any) maps the proposal forward.\<close>

definition suggest ::
  "('c, 'x, 'u) concrete_optimizer \<Rightarrow> ('s, 'c, 'x, 'u) base_optimizer \<Rightarrow> 'x option
     \<Rightarrow> (error + 'c frame) \<times> ('s, 'c, 'x, 'u) base_optimizer"
where
  "suggest sub self ctx =
     (case subclass_suggest sub (subclass_state self) ctx of
        (r, u) \<Rightarrow>
          (let self1 = self\<lparr>subclass_state := u\<rparr>
           in case r of
                Inl e \<Rightarrow> (Inl e, self1)
              | Inr configuration \<Rightarrow>
                  (case space_adapter self1 of
                     None \<Rightarrow> (Inr configuration, self1)
                   | Some a \<Rightarrow> (transform a configuration, self1))))"

text \<open>\<^verbatim>\<open>register_pending\<close> is abstract in the base class: all of it is the subclass's.\<close>

definition register_pending ::
  "('c, 'x, 'u) concrete_optimizer \<Rightarrow> ('s, 'c, 'x, 'u) base_optimizer \<Rightarrow> 'c frame \<Rightarrow> 'x option
     \<Rightarrow> (error + unit) \<times> ('s, 'c, 'x, 'u) base_optimizer"
where
  "register_pending sub self configurations ctx =
     (case subclass_register_pending sub (subclass_state self) configurations ctx of
        (r, u) \<Rightarrow> (r, self\<lparr>subclass_state := u\<rparr>))"

text \<open>
  A row of the table \<^verbatim>\<open>get_observations\<close> returns: index label, the configuration's cells
  (\<open>None\<close> when pandas filled the whole row with NaN) and the cell of the \<^verbatim>\<open>score\<close>
  column.
\<close>

type_synonym 'c observation_row = "nat \<times> 'c option \<times> float64"

text \<open>
  \<^verbatim>\<open>configs["score"] = scores\<close>, as pandas assigns a Series to a column. When the two
  indexes are equal the values are taken by position. A frame without rows takes over the
  index of the Series. Otherwise the Series is reindexed by the frame's labels: that
  raises \<^verbatim>\<open>ValueError\<close> when the Series has a label twice, and gives NaN for a label the
  Series does not have.
\<close>

definition set_score_column :: "'c frame \<Rightarrow> series \<Rightarrow> error + 'c observation_row list" where
  "set_score_column configs scores =
     (if map fst scores = map fst configs
      then Inr (map (\<lambda>((l, c), (_, s)). (l, Some c, s)) (zip configs scores))
      else if configs = []
      then Inr (map (\<lambda>(l, s). (l, None, s)) scores)
      else if \<not> distinct (map fst scores)
      then Inl (ValueError ''cannot reindex on an axis with duplicate labels'')
      else Inr (map (\<lambda>(l, c). (l, Some c, case map_of scores l of None \<Rightarrow> NaN | Some s \<Rightarrow> s))
                  configs))"

text \<open>
  \<^verbatim>\<open>pd.concat\<close> of the contexts: it raises \<^verbatim>\<open>ValueError\<close> when every object is \<^verbatim>\<open>None\<close>
  (the method then sets \<^verbatim>\<open>contexts = None\<close>), and drops the \<^verbatim>\<open>None\<close> ones otherwise.
\<close>

definition concat_contexts :: "'x option list \<Rightarrow> 'x list option" where
  "concat_contexts cs = (if list_all (\<lambda>c. c = None) cs then None else Some (List.map_filter id cs))"

definition get_observations ::
  "('s, 'c, 'x, 'u) base_optimizer \<Rightarrow> error + 'c observation_row list"
where
  "get_observations self =
     (if length (observations self) = 0
      then Inl (ValueError ''No observations registered yet.'')
      else
        let configs = concat (map (\<lambda>(config, _, _). config) (observations self));
            scores = concat (map (\<lambda>(_, score, _). score) (observations self));
            contexts = concat_contexts (map (\<lambda>(_, _, c). c) (observations self))
        in case set_score_column configs scores of
             Inl e \<Rightarrow> Inl e
           | Inr configs' \<Rightarrow>
               (case contexts of
                  Some _ \<Rightarrow> Inl NotImplementedError
                | None \<Rightarrow> Inr configs'))"

text \<open>
  \<^verbatim>\<open>nsmallest(1, columns='score')\<close>: the first row with the least score among the rows
  whose score is not NaN; when every score is NaN, the first row; no row of an empty table.
\<close>

fun first_least :: "'c observation_row \<Rightarrow> 'c observation_row list \<Rightarrow> 'c observation_row" where
  "first_least best [] = best"
| "first_least best (r # rs) =
     first_least (if float_less (snd (snd r)) (snd (snd best)) then r else best) rs"

definition nsmallest1 :: "'c observation_row list \<Rightarrow> 'c observation_row list" where
  "nsmallest1 tbl =
     (case filter (\<lambda>r. snd (snd r) \<noteq> NaN) tbl of
        [] \<Rightarrow> take 1 tbl
      | r # rs \<Rightarrow> [first_least r rs])"

definition get_best_observation ::
  "('s, 'c, 'x, 'u) base_optimizer \<Rightarrow> error + 'c observation_row list"
where
  "get_best_observation self =
     (if length (observations self) = 0
      then Inl (ValueError ''No observations registered yet.'')
      else case get_observations self of
             Inl e \<Rightarrow> Inl e
           | Inr observations' \<Rightarrow> Inr (nsmallest1 observations'))"

text \<open>A caller's calls, and the optimizer after a sequence of them (an exception is
  caught by the caller; the state the failed call left behind is the state that goes on).\<close>

datatype ('c, 'x) call =
  Register "'c frame" series "'x option"
  | Suggest "'x option"
  | RegisterPending "'c frame" "'x option"

fun do_call ::
  "('c, 'x, 'u) concrete_optimizer \<Rightarrow> ('s, 'c, 'x, 'u) base_optimizer \<Rightarrow> ('c, 'x) call
     \<Rightarrow> ('s, 'c, 'x, 'u) base_optimizer"
where
  "do_call sub self (Register configurations scores ctx) =
     snd (register sub self configurations scores ctx)"
| "do_call sub self (Suggest ctx) = snd (suggest sub self ctx)"
| "do_call sub self (RegisterPending configurations ctx) =
     snd (register_pending sub self configurations ctx)"

fun do_calls ::
  "('c, 'x, 'u) concrete_optimizer \<Rightarrow> ('s, 'c, 'x, 'u) base_optimizer \<Rightarrow> ('c, 'x) call list
     \<Rightarrow> ('s, 'c, 'x, 'u) base_optimizer"
where
  "do_calls sub self [] = self"
| "do_calls sub self (c # cs) = do_calls sub (do_call sub self c) cs"

text \<open>The triples the \<^verbatim>\<open>register\<close> calls of a sequence were given, in call order.\<close>

fun registered :: "('c, 'x) call list \<Rightarrow> ('c, 'x) observation list" where
  "registered [] = []"
| "registered (Register configurations scores ctx # cs) =
     (configurations, scores, ctx) # registered cs"
| "registered (_ # cs) = registered cs"

text \<open>The rows of one observation whose scores carry the index of its configurations.\<close>

definition observation_rows :: "('c, 'x) observation \<Rightarrow> (nat \<times> 'c \<times> float64) list" where
  "observation_rows ob =
     (case ob of (configurations, scores, _) \<Rightarrow>
        map (\<lambda>((l, c), (_, s)). (l, c, s)) (zip configurations scores))"

definition table_row :: "nat \<times> 'c \<times> float64 \<Rightarrow> 'c observation_row" where
  "table_row r = (case r of (l, c, s) \<Rightarrow> (l, Some c, s))"

definition aligned :: "('c, 'x) observation \<Rightarrow> bool" where
  "aligned ob = (case ob of (configurations, scores, _) \<Rightarrow> map fst scores = map fst configurations)"

definition no_context :: "('c, 'x) observation \<Rightarrow> bool" where
  "no_context ob = (case ob of (_, _, ctx) \<Rightarrow> ctx = None)"

definition no_nan_score :: "('c, 'x) observation \<Rightarrow> bool" where
  "no_nan_score ob = (case ob of (_, scores, _) \<Rightarrow> list_all (\<lambda>(_, s). s \<noteq> NaN) scores)"

section \<open>mlos.Optimizers.RegressionModels: HomogeneousRandomForestRegressionModel\<close>

text \<open>
  A \<^verbatim>\<open>pd.DataFrame\<close> of numbers: the column names, and the rows in order, each with its
  index label and its cells in column order. \<open>None\<close> is a missing value (NaN).
\<close>

record dataframe =
  columns :: "string list"
  rows :: "(nat \<times> real option list) list"

definition cell_of :: "string list \<Rightarrow> real option list \<Rightarrow> string \<Rightarrow> real option" where
  "cell_of cols cells name = (case map_of (zip cols cells) name of Some v \<Rightarrow> v | None \<Rightarrow> None)"

text \<open>\<^verbatim>\<open>df[[names]]\<close>: the named columns in the order asked; \<^verbatim>\<open>KeyError\<close> when one is absent.\<close>

definition select_columns :: "dataframe \<Rightarrow> string list \<Rightarrow> error + dataframe" where
  "select_columns df names =
     (if list_all (\<lambda>name. name \<in> set (columns df)) names
      then Inr \<lparr>columns = names,
                rows = map (\<lambda>(l, cells). (l, map (cell_of (columns df) cells) names)) (rows df)\<rparr>
      else Inl KeyError)"

text \<open>\<^verbatim>\<open>df[df.notnull().all(axis=1)]\<close>: the rows without a missing value, labels kept.\<close>

definition notnull_rows :: "dataframe \<Rightarrow> dataframe" where
  "notnull_rows df =
     df\<lparr>rows := filter (\<lambda>(l, cells). list_all (\<lambda>c. c \<noteq> None) cells) (rows df)\<rparr>"

text \<open>
  \<^verbatim>\<open>df.iloc[ids]\<close>: rows by position (a negative position counts from the end), labels
  kept; \<^verbatim>\<open>IndexError\<close> when a position is out of bounds.
\<close>

definition iloc :: "dataframe \<Rightarrow> int list \<Rightarrow> error + dataframe" where
  "iloc df ids =
     (let n = int (length (rows df))
      in if list_all (\<lambda>i. - n \<le> i \<and> i < n) ids
         then Inr (df\<lparr>rows := map (\<lambda>i. rows df ! nat (if i < 0 then n + i else i)) ids\<rparr>)
         else Inl IndexError)"

text \<open>
  Modelled from the spec: the class \<^verbatim>\<open>Prediction\<close> (module \<^verbatim>\<open>Prediction\<close>, imported by the
  forest and not among the sources): a validity flag and, if valid, a mean, a variance and
  a support count, with the name of the target. A field that was not given is \<^verbatim>\<open>None\<close>;
  \<^verbatim>\<open>valid\<close> is true unless given.
\<close>

record Prediction =
  target_name :: string
  valid :: bool
  mean :: "real option"
  variance :: "real option"
  count :: "nat option"

text \<open>
  What the forest is given by its collaborators, for members of type \<open>'m\<close> and a state
  \<open>'g\<close> of numpy's global random generator:
  the two space adapters' \<^verbatim>\<open>translate_dataframe\<close>; of a member (a
  \<^verbatim>\<open>DecisionTreeRegressionModel\<close>) the names of its input dimensions, \<^verbatim>\<open>should_fit\<close>,
  \<^verbatim>\<open>fit\<close> (which may raise, and may draw random numbers) and \<^verbatim>\<open>predict\<close>; of numpy
  \<^verbatim>\<open>np.random.seed\<close>, which sets the generator's state from the seed alone, and the
  generator's draw of \<open>size\<close> integers below \<open>high\<close>.
\<close>

record ('m, 'g) collaborators =
  translate_input :: "dataframe \<Rightarrow> dataframe"
  translate_output :: "dataframe \<Rightarrow> dataframe"
  input_dimension_names :: "'m \<Rightarrow> string list"
  should_fit :: "'m \<Rightarrow> nat \<Rightarrow> bool"
  tree_fit :: "'m \<Rightarrow> dataframe \<Rightarrow> dataframe \<Rightarrow> 'g \<Rightarrow> error + 'm \<times> 'g"
  tree_predict :: "'m \<Rightarrow> dataframe \<Rightarrow> error + Prediction list"
  seed :: "nat \<Rightarrow> 'g"
  bounded_integers :: "'g \<Rightarrow> nat \<Rightarrow> nat \<Rightarrow> nat list \<times> 'g"

text \<open>The generator's contract: below a positive bound, as many integers as asked, each
  below the bound.\<close>

definition generator_in_range :: "('m, 'g) collaborators \<Rightarrow> bool" where
  "generator_in_range ops =
     (\<forall>g high sz. 0 < high \<longrightarrow>
        length (fst (bounded_integers ops g high sz)) = sz
        \<and> list_all (\<lambda>k. k < high) (fst (bounded_integers ops g high sz)))"

text \<open>
  \<^verbatim>\<open>np.random.randint(low, high, size)\<close>, as numpy answers it: for size 0 the empty array,
  whatever the range, and no sample is drawn; otherwise an empty range raises
  \<^verbatim>\<open>ValueError\<close>, and so does a negative size.
\<close>

definition np_random_randint ::
  "('m, 'g) collaborators \<Rightarrow> 'g \<Rightarrow> int \<Rightarrow> int \<Rightarrow> int \<Rightarrow> error + int list \<times> 'g"
where
  "np_random_randint ops g low high sz =
     (if sz = 0 then Inr ([], g)
      else if high \<le> low
      then Inl (ValueError (if low = 0 then ''high <= 0'' else ''low >= high''))
      else if sz < 0 then Inl (ValueError ''negative dimensions are not allowed'')
      else case bounded_integers ops g (nat (high - low)) (nat sz) of
             (ks, g') \<Rightarrow> Inr (map (\<lambda>k. low + int k) ks, g'))"

record forest_config =
  n_estimators :: nat
  features_fraction_per_estimator :: real
  samples_fraction_per_estimator :: real

record 'm forest =
  model_config :: forest_config
  target_dimension_names :: "string list"
  decision_trees :: "'m list"

text \<open>
  The selection of \<^verbatim>\<open>fit\<close>'s loop body: \<^verbatim>\<open>np.random.seed(i)\<close> replaces the generator's
  state \<open>g\<close>, then \<^verbatim>\<open>min(num_filtered_observations, num_observations_per_estimator)\<close>
  positions below \<^verbatim>\<open>num_filtered_observations\<close> are drawn.
\<close>

definition select_observation_ids ::
  "('m, 'g) collaborators \<Rightarrow> nat \<Rightarrow> int \<Rightarrow> int \<Rightarrow> 'g \<Rightarrow> error + int list \<times> 'g"
where
  "select_observation_ids ops i num_filtered_observations num_observations_per_estimator g =
     (let g1 = seed ops i
      in np_random_randint ops g1 0 num_filtered_observations
           (min num_filtered_observations num_observations_per_estimator))"

text \<open>
  The member's view of the features: its own columns, without the rows that have a missing
  value in them.
\<close>

definition filter_observations :: "dataframe \<Rightarrow> string list \<Rightarrow> error + dataframe" where
  "filter_observations feature_values names =
     (case select_columns feature_values names of
        Inl e \<Rightarrow> Inl e
      | Inr estimators_df \<Rightarrow> Inr (notnull_rows estimators_df))"

text \<open>
  One round of \<^verbatim>\<open>fit\<close>'s loop, for the member \<open>tree\<close> at index \<open>i\<close>: project and filter,
  select, ask the member whether to fit, and fit it on the selected rows of the filtered
  features and on the rows of the targets at the same positions; the targets are the
  table as it came in.
\<close>

definition fit_tree ::
  "('m, 'g) collaborators \<Rightarrow> dataframe \<Rightarrow> dataframe \<Rightarrow> int \<Rightarrow> nat \<Rightarrow> 'm \<Rightarrow> 'g
     \<Rightarrow> error + 'm \<times> 'g"
where
  "fit_tree ops feature_values target_values num_observations_per_estimator i tree g =
     (case filter_observations feature_values (input_dimension_names ops tree) of
        Inl e \<Rightarrow> Inl e
      | Inr filtered_observations \<Rightarrow>
          (let num_filtered_observations = int (length (rows filtered_observations))
           in case select_observation_ids ops i num_filtered_observations
                     num_observations_per_estimator g of
                Inl e \<Rightarrow> Inl e
              | Inr (selected_observation_ids, g2) \<Rightarrow>
                  (let num_selected_observations = length selected_observation_ids
                   in if should_fit ops tree num_selected_observations
                      then (case iloc filtered_observations selected_observation_ids of
                              Inl e \<Rightarrow> Inl e
                            | Inr selected_features \<Rightarrow>
                                (case iloc target_values selected_observation_ids of
                                   Inl e \<Rightarrow> Inl e
                                 | Inr selected_targets \<Rightarrow>
                                     tree_fit ops tree selected_features selected_targets g2))
                      else Inr (tree, g2))))"

fun fit_trees ::
  "('m, 'g) collaborators \<Rightarrow> dataframe \<Rightarrow> dataframe \<Rightarrow> int \<Rightarrow> nat \<Rightarrow> 'm list \<Rightarrow> 'g
     \<Rightarrow> error + 'm list \<times> 'g"
where
  "fit_trees ops feature_values target_values k i [] g = Inr ([], g)"
| "fit_trees ops feature_values target_values k i (tree # trees) g =
     (case fit_tree ops feature_values target_values k i tree g of
        Inl e \<Rightarrow> Inl e
      | Inr (tree', g') \<Rightarrow>
          (case fit_trees ops feature_values target_values k (Suc i) trees g' of
             Inl e \<Rightarrow> Inl e
           | Inr (trees', g'') \<Rightarrow> Inr (tree' # trees', g'')))"

text \<open>
  \<^verbatim>\<open>fit\<close>. The product under \<^verbatim>\<open>math.ceil\<close> is taken exactly; the code's product is a float,
  and where it is rounded up past an integer (\<^verbatim>\<open>0.07 * 100\<close>) the code's count is one more.
  An exception ends the call; what the members before it were fitted on is not part of the
  result then.
\<close>

definition fit ::
  "('m, 'g) collaborators \<Rightarrow> 'm forest \<Rightarrow> dataframe \<Rightarrow> dataframe \<Rightarrow> 'g
     \<Rightarrow> error + 'm forest \<times> 'g"
where
  "fit ops self feature_values_pandas_frame target_values_pandas_frame g =
     (let feature_values = translate_input ops feature_values_pandas_frame;
          target_values = translate_output ops target_values_pandas_frame;
          total_num_observations = length (rows feature_values);
          num_observations_per_estimator =
            \<lceil>samples_fraction_per_estimator (model_config self) * real total_num_observations\<rceil>
      in case fit_trees ops feature_values target_values num_observations_per_estimator 0
                (decision_trees self) g of
           Inl e \<Rightarrow> Inl e
         | Inr (trees', g') \<Rightarrow> Inr (self\<lparr>decision_trees := trees'\<rparr>, g'))"

text \<open>
  The numbers of a prediction are reals in what follows, and the arithmetic on them is
  exact; the section on floating point gives the same aggregation over floats.
  \<^verbatim>\<open>np.mean\<close> of a list of numbers, in exact arithmetic:
\<close>

definition np_mean :: "real list \<Rightarrow> real" where
  "np_mean xs = sum_list xs / real (length xs)"

text \<open>Arithmetic on a field that is \<^verbatim>\<open>None\<close> raises \<^verbatim>\<open>TypeError\<close>.\<close>

fun numbers :: "real option list \<Rightarrow> error + real list" where
  "numbers [] = Inr []"
| "numbers (None # _) = Inl TypeError"
| "numbers (Some x # xs) = (case numbers xs of Inl e \<Rightarrow> Inl e | Inr ys \<Rightarrow> Inr (x # ys))"

definition second_moment :: "Prediction \<Rightarrow> real option" where
  "second_moment prediction =
     (case (variance prediction, mean prediction) of
        (Some v, Some m) \<Rightarrow> Some (v + m\<^sup>2)
      | _ \<Rightarrow> None)"

definition nth_checked :: "'a list \<Rightarrow> nat \<Rightarrow> error + 'a" where
  "nth_checked xs i = (if i < length xs then Inr (xs ! i) else Inl IndexError)"

text \<open>
  The body of \<^verbatim>\<open>predict\<close>'s loop over the rows, given the members' predictions for one
  row. Only the valid ones are kept; the two later tests in the comprehensions
  (\<^verbatim>\<open>if prediction.valid\<close>, \<^verbatim>\<open>if prediction is not None\<close>) then keep every element. The
  invalid result takes its target name from the model, the valid one from the first valid
  member prediction (the list is not empty in that branch).
\<close>

definition aggregate :: "string list \<Rightarrow> Prediction list \<Rightarrow> error + Prediction" where
  "aggregate target_names member_predictions =
     (let observation_predictions = filter valid member_predictions
      in if observation_predictions = [] \<or> \<not> list_ex valid observation_predictions
         then (case target_names of
                 [] \<Rightarrow> Inl IndexError
               | name # _ \<Rightarrow>
                   Inr \<lparr>target_name = name, valid = False, mean = None, variance = None,
                        count = None\<rparr>)
         else (case numbers (map mean observation_predictions) of
                 Inl e \<Rightarrow> Inl e
               | Inr means \<Rightarrow>
                   (let prediction_mean = np_mean means
                    in case numbers (map second_moment observation_predictions) of
                         Inl e \<Rightarrow> Inl e
                       | Inr moments \<Rightarrow>
                           Inr \<lparr>target_name = target_name (hd observation_predictions),
                                valid = True,
                                mean = Some prediction_mean,
                                variance = Some (np_mean moments - prediction_mean\<^sup>2),
                                count = Some (length observation_predictions)\<rparr>)))"

definition predict ::
  "('m, 'g) collaborators \<Rightarrow> 'm forest \<Rightarrow> dataframe \<Rightarrow> error + Prediction list"
where
  "predict ops self feature_values_pandas_frame =
     (let feature_values = translate_input ops feature_values_pandas_frame
      in case sequence (map (\<lambda>estimator. tree_predict ops estimator feature_values)
                          (decision_trees self)) of
           Inl e \<Rightarrow> Inl e
         | Inr predictions \<Rightarrow>
             sequence
               (map (\<lambda>observation_id.
                       case sequence (map (\<lambda>p. nth_checked p observation_id) predictions) of
                         Inl e \<Rightarrow> Inl e
                       | Inr member_predictions \<Rightarrow>
                           aggregate (target_dimension_names self) member_predictions)
                  [0 ..< length (rows feature_values)]))"

section \<open>The aggregation in floating point\<close>

text \<open>
  The definitions above take the numbers of the forest as reals: every sum, quotient and
  square is exact. The code computes with numpy's \<^verbatim>\<open>float64\<close>. This section gives that
  arithmetic and the aggregation of \<^verbatim>\<open>predict\<close> over it.

  A result is rounded to the nearest float, a tie to the float with the even significand
  (53 bits; below \<open>2\<^sup>-\<^sup>1\<^sup>0\<^sup>2\<^sup>2\<close> the spacing stays \<open>2\<^sup>-\<^sup>1\<^sup>0\<^sup>7\<^sup>4\<close>), and a rounded magnitude of
  \<open>2\<^sup>1\<^sup>0\<^sup>2\<^sup>4\<close> or more is an infinity. numpy warns on overflow and on an invalid operation;
  it does not raise.
\<close>

definition round_half_even :: "real \<Rightarrow> int" where
  "round_half_even x =
     (let f = \<lfloor>x\<rfloor>
      in if x - of_int f < 1 / 2 then f
         else if 1 / 2 < x - of_int f then f + 1
         else if even f then f else f + 1)"

definition round64 :: "real \<Rightarrow> float64" where
  "round64 x =
     (if x = 0 then Finite 0
      else
        let e = max \<lfloor>log 2 \<bar>x\<bar>\<rfloor> (- 1022);
            ulp = 2 powi (e - 52);
            y = of_int (round_half_even (x / ulp)) * ulp
        in if 2 ^ 1024 \<le> \<bar>y\<bar> then (if 0 < x then PosInf else NegInf) else Finite y)"

fun float_add :: "float64 \<Rightarrow> float64 \<Rightarrow> float64" where
  "float_add NaN _ = NaN"
| "float_add _ NaN = NaN"
| "float_add PosInf NegInf = NaN"
| "float_add NegInf PosInf = NaN"
| "float_add PosInf _ = PosInf"
| "float_add _ PosInf = PosInf"
| "float_add NegInf _ = NegInf"
| "float_add _ NegInf = NegInf"
| "float_add (Finite a) (Finite b) = round64 (a + b)"

fun float_neg :: "float64 \<Rightarrow> float64" where
  "float_neg (Finite a) = Finite (- a)"
| "float_neg PosInf = NegInf"
| "float_neg NegInf = PosInf"
| "float_neg NaN = NaN"

definition float_sub :: "float64 \<Rightarrow> float64 \<Rightarrow> float64" where
  "float_sub a b = float_add a (float_neg b)"

text \<open>A float divided by a count (\<^verbatim>\<open>ret / rcount\<close> in \<^verbatim>\<open>np.mean\<close>).\<close>

fun float_divide_count :: "float64 \<Rightarrow> nat \<Rightarrow> float64" where
  "float_divide_count NaN n = NaN"
| "float_divide_count PosInf n = PosInf"
| "float_divide_count NegInf n = NegInf"
| "float_divide_count (Finite a) n =
     (if n = 0 then (if a = 0 then NaN else if 0 < a then PosInf else NegInf)
      else round64 (a / real n))"

text \<open>
  \<^verbatim>\<open>x ** 2\<close> is the C library's \<^verbatim>\<open>pow(x, 2.0)\<close>, which is within one unit in the last place
  of the square and not always its nearest float. The aggregation therefore takes squaring
  as a parameter, once for a member's mean and once for the aggregate mean. The aggregate
  mean is a numpy float, whose power never raises. A member's mean is the member's: when
  it is a numpy float, an overflowing square is an infinity; when it is a Python float,
  \<^verbatim>\<open>**\<close> raises \<^verbatim>\<open>OverflowError\<close> instead. \<open>rounded_square\<close> is the nearest float of the
  square, which \<^verbatim>\<open>pow\<close> returns at most arguments; \<open>numpy_square\<close> and \<open>python_square\<close>
  are the two powers of a member's mean with that value.
\<close>

fun rounded_square :: "float64 \<Rightarrow> float64" where
  "rounded_square (Finite a) = round64 (a * a)"
| "rounded_square NaN = NaN"
| "rounded_square _ = PosInf"

definition numpy_square :: "float64 \<Rightarrow> error + float64" where
  "numpy_square x = Inr (rounded_square x)"

fun python_square :: "float64 \<Rightarrow> error + float64" where
  "python_square (Finite a) =
     (case round64 (a * a) of PosInf \<Rightarrow> Inl OverflowError | y \<Rightarrow> Inr y)"
| "python_square x = Inr (rounded_square x)"

text \<open>
  \<^verbatim>\<open>np.mean\<close> of a list of floats: numpy's sum over the count. numpy adds fewer than eight
  values one after the other; up to 128 values it keeps eight running sums, one per
  position modulo eight, adds them pairwise and then adds the values left over; a longer
  array is split in two parts that are summed on their own.
\<close>

fun add_all :: "float64 \<Rightarrow> float64 list \<Rightarrow> float64" where
  "add_all res [] = res"
| "add_all res (a # as) = add_all (float_add res a) as"

fun add_blocks :: "float64 list \<Rightarrow> float64 list \<Rightarrow> float64 list" where
  "add_blocks r xs =
     (if length xs < 8 then r
      else add_blocks (map (\<lambda>(a, b). float_add a b) (zip r (take 8 xs))) (drop 8 xs))"

definition block_sum :: "float64 list \<Rightarrow> float64" where
  "block_sum xs =
     (let n = length xs;
          r = add_blocks (take 8 xs) (take (n - n mod 8 - 8) (drop 8 xs));
          res = float_add
                  (float_add (float_add (r ! 0) (r ! 1)) (float_add (r ! 2) (r ! 3)))
                  (float_add (float_add (r ! 4) (r ! 5)) (float_add (r ! 6) (r ! 7)))
      in add_all res (drop (n - n mod 8) xs))"

function pairwise_sum :: "float64 list \<Rightarrow> float64" where
  "pairwise_sum xs =
     (if length xs < 8 then add_all (Finite 0) xs
      else if length xs \<le> 128 then block_sum xs
      else float_add
             (pairwise_sum (take (length xs div 2 - (length xs div 2) mod 8) xs))
             (pairwise_sum (drop (length xs div 2 - (length xs div 2) mod 8) xs)))"
  by pat_completeness auto
termination
proof (relation "measure length")
  show "wf (measure length)" by simp
next
  fix xs :: "float64 list"
  assume "\<not> length xs \<le> 128"
  then have "length xs div 2 - length xs div 2 mod 8 < length xs" by arith
  then show "(take (length xs div 2 - length xs div 2 mod 8) xs, xs) \<in> measure length"
    by simp
next
  fix xs :: "float64 list"
  assume "\<not> length xs \<le> 128"
  then have "0 < length xs div 2 - length xs div 2 mod 8" by arith
  then show "(drop (length xs div 2 - length xs div 2 mod 8) xs, xs) \<in> measure length"
    by (cases xs) simp_all
qed

definition np_mean_float64 :: "float64 list \<Rightarrow> float64" where
  "np_mean_float64 xs =
     float_divide_count (float_add (Finite 0) (pairwise_sum xs)) (length xs)"

text \<open>
  Modelled from the spec: the class \<^verbatim>\<open>Prediction\<close> once more, its mean and variance floats.
\<close>

record Prediction64 =
  target_name64 :: string
  valid64 :: bool
  mean64 :: "float64 option"
  variance64 :: "float64 option"
  count64 :: "nat option"

fun floats :: "float64 option list \<Rightarrow> error + float64 list" where
  "floats [] = Inr []"
| "floats (None # _) = Inl TypeError"
| "floats (Some x # xs) = (case floats xs of Inl e \<Rightarrow> Inl e | Inr ys \<Rightarrow> Inr (x # ys))"

text \<open>
  \<^verbatim>\<open>prediction.variance + prediction.mean ** 2\<close>: the power is taken first (of \<^verbatim>\<open>None\<close> it
  raises \<^verbatim>\<open>TypeError\<close>), then the sum (\<^verbatim>\<open>TypeError\<close> for a variance that is \<^verbatim>\<open>None\<close>).
\<close>

definition second_moment64 ::
  "(float64 \<Rightarrow> error + float64) \<Rightarrow> Prediction64 \<Rightarrow> error + float64"
where
  "second_moment64 member_square prediction =
     (case mean64 prediction of
        None \<Rightarrow> Inl TypeError
      | Some m \<Rightarrow>
          (case member_square m of
             Inl e \<Rightarrow> Inl e
           | Inr m2 \<Rightarrow>
               (case variance64 prediction of
                  None \<Rightarrow> Inl TypeError
                | Some v \<Rightarrow> Inr (float_add v m2))))"

text \<open>The loop body of \<^verbatim>\<open>predict\<close> and \<^verbatim>\<open>predict\<close>, as above, over floats.\<close>

definition aggregate_float64 ::
  "(float64 \<Rightarrow> error + float64) \<Rightarrow> (float64 \<Rightarrow> float64) \<Rightarrow> string list
     \<Rightarrow> Prediction64 list \<Rightarrow> error + Prediction64"
where
  "aggregate_float64 member_square square target_names member_predictions =
     (let observation_predictions = filter valid64 member_predictions
      in if observation_predictions = [] \<or> \<not> list_ex valid64 observation_predictions
         then (case target_names of
                 [] \<Rightarrow> Inl IndexError
               | name # _ \<Rightarrow>
                   Inr \<lparr>target_name64 = name, valid64 = False, mean64 = None,
                        variance64 = None, count64 = None\<rparr>)
         else (case floats (map mean64 observation_predictions) of
                 Inl e \<Rightarrow> Inl e
               | Inr means \<Rightarrow>
                   (let prediction_mean = np_mean_float64 means
                    in case sequence
                              (map (second_moment64 member_square) observation_predictions) of
                         Inl e \<Rightarrow> Inl e
                       | Inr moments \<Rightarrow>
                           Inr \<lparr>target_name64 = target_name64 (hd observation_predictions),
                                valid64 = True,
                                mean64 = Some prediction_mean,
                                variance64 =
                                  Some (float_sub (np_mean_float64 moments)
                                          (square prediction_mean)),
                                count64 = Some (length observation_predictions)\<rparr>)))"

definition predict_float64 ::
  "(dataframe \<Rightarrow> dataframe) \<Rightarrow> ('m \<Rightarrow> dataframe \<Rightarrow> error + Prediction64 list)
     \<Rightarrow> (float64 \<Rightarrow> error + float64) \<Rightarrow> (float64 \<Rightarrow> float64) \<Rightarrow> 'm forest \<Rightarrow> dataframe
     \<Rightarrow> error + Prediction64 list"
where
  "predict_float64 translate tree_predict64 member_square square self
     feature_values_pandas_frame =
     (let feature_values = translate feature_values_pandas_frame
      in case sequence (map (\<lambda>estimator. tree_predict64 estimator feature_values)
                          (decision_trees self)) of
           Inl e \<Rightarrow> Inl e
         | Inr predictions \<Rightarrow>
             sequence
               (map (\<lambda>observation_id.
                       case sequence (map (\<lambda>p. nth_checked p observation_id) predictions) of
                         Inl e \<Rightarrow> Inl e
                       | Inr member_predictions \<Rightarrow>
                           aggregate_float64 member_square square (target_dimension_names self)
                             member_predictions)
                  [0 ..< length (rows feature_values)]))"

section \<open>Example values\<close>

text \<open>Three concrete optimizers: one whose \<^verbatim>\<open>_register\<close> accepts whatever it is given,
  one that raises \<^verbatim>\<open>NotImplementedError\<close> for a context, one whose model update fails.\<close>

definition accepting_optimizer :: "(real list, string, nat) concrete_optimizer" where
  "accepting_optimizer =
     \<lparr>subclass_register = (\<lambda>u _ _ _. (Inr (), Suc u)),
      subclass_suggest = (\<lambda>u _. (Inr [(0, [0])], u)),
      subclass_register_pending = (\<lambda>u _ _. (Inr (), u))\<rparr>"

definition rejecting_optimizer :: "(real list, string, nat) concrete_optimizer" where
  "rejecting_optimizer =
     \<lparr>subclass_register =
        (\<lambda>u _ _ ctx. case ctx of None \<Rightarrow> (Inr (), Suc u) | Some _ \<Rightarrow> (Inl NotImplementedError, u)),
      subclass_suggest = (\<lambda>u _. (Inr [(0, [0])], u)),
      subclass_register_pending = (\<lambda>u _ _. (Inl NotImplementedError, u))\<rparr>"

definition failing_optimizer :: "(real list, string, nat) concrete_optimizer" where
  "failing_optimizer =
     \<lparr>subclass_register = (\<lambda>u _ _ _. (Inl (ValueError ''model update failed''), u)),
      subclass_suggest = (\<lambda>u _. (Inr [(0, [0])], u)),
      subclass_register_pending = (\<lambda>u _ _. (Inr (), u))\<rparr>"

definition fresh_optimizer :: "(string, real list, string, nat) base_optimizer" where
  "fresh_optimizer =
     \<lparr>parameter_space = ''space'', optimizer_parameter_space = ''space'',
      space_adapter = None, observations = [], pending_observations = [],
      subclass_state = 0\<rparr>"

definition identity_adapter :: "string \<Rightarrow> (string, real list) base_space_adapter" where
  "identity_adapter orig =
     \<lparr>orig_parameter_space = orig, target_parameter_space = ''low_dimensional_space'',
      transform = Inr, inverse_transform = Inr\<rparr>"

definition three_calls :: "(real list, string) call list" where
  "three_calls =
     [Register [(0, [7])] [(0, Finite 3)] None, Suggest None,
      Register [(0, [8])] [(0, Finite 1)] None, RegisterPending [(0, [4])] None,
      Register [(0, [9])] [(0, Finite 1)] None]"

text \<open>Example collaborators: a member is the training set it was last fitted on.\<close>

definition recording_forest ::
  "((dataframe \<times> dataframe) option, nat) collaborators"
where
  "recording_forest =
     \<lparr>translate_input = (\<lambda>df. df),
      translate_output = (\<lambda>df. df),
      input_dimension_names = (\<lambda>_. [''x'']),
      should_fit = (\<lambda>_ n. 0 < n),
      tree_fit = (\<lambda>_ features targets g. Inr (Some (features, targets), g)),
      tree_predict = (\<lambda>_ df. Inr []),
      seed = (\<lambda>i. i),
      bounded_integers = (\<lambda>g high sz. (map (\<lambda>j. (g + j) mod high) [0 ..< sz], g + sz))\<rparr>"

definition unit_forest :: "(dataframe \<times> dataframe) option forest" where
  "unit_forest =
     \<lparr>model_config =
        \<lparr>n_estimators = 1, features_fraction_per_estimator = 1,
         samples_fraction_per_estimator = 1\<rparr>,
      target_dimension_names = [''y''],
      decision_trees = [None]\<rparr>"

definition features_with_gap :: dataframe where
  "features_with_gap = \<lparr>columns = [''x''], rows = [(0, [None]), (1, [Some 5])]\<rparr>"

definition targets_of_two :: dataframe where
  "targets_of_two = \<lparr>columns = [''y''], rows = [(0, [Some 10]), (1, [Some 20])]\<rparr>"

definition features_all_missing :: dataframe where
  "features_all_missing = \<lparr>columns = [''x''], rows = [(0, [None]), (1, [None])]\<rparr>"

text \<open>Example members that predict what they hold.\<close>

definition replaying_members :: "(Prediction list, nat) collaborators" where
  "replaying_members =
     \<lparr>translate_input = (\<lambda>df. df),
      translate_output = (\<lambda>df. df),
      input_dimension_names = (\<lambda>_. [''x'']),
      should_fit = (\<lambda>_ n. 0 < n),
      tree_fit = (\<lambda>tree _ _ g. Inr (tree, g)),
      tree_predict = (\<lambda>tree _. Inr tree),
      seed = (\<lambda>i. i),
      bounded_integers = (\<lambda>g high sz. (map (\<lambda>j. (g + j) mod high) [0 ..< sz], g + sz))\<rparr>"

definition no_prediction :: Prediction where
  "no_prediction =
     \<lparr>target_name = ''y'', valid = False, mean = None, variance = None, count = None\<rparr>"

definition three_members :: "Prediction list forest" where
  "three_members =
     \<lparr>model_config =
        \<lparr>n_estimators = 3, features_fraction_per_estimator = 1,
         samples_fraction_per_estimator = 1\<rparr>,
      target_dimension_names = [''y''],
      decision_trees =
        [[\<lparr>target_name = ''y'', valid = True, mean = Some 1, variance = Some 0, count = Some 3\<rparr>,
          no_prediction],
         [no_prediction, no_prediction],
         [\<lparr>target_name = ''y'', valid = True, mean = Some 3, variance = Some 2, count = Some 4\<rparr>,
          no_prediction]]\<rparr>"

definition two_queries :: dataframe where
  "two_queries = \<lparr>columns = [''x''], rows = [(0, [Some 1]), (1, [Some 2])]\<rparr>"



definition one_query :: dataframe where
  "one_query = \<lparr>columns = [''x''], rows = [(0, [Some 1])]\<rparr>"

text \<open>
  Two members whose means are the float \<open>2 ^ 600\<close>: the square of such a mean is beyond the
  largest float.
\<close>

definition two_huge :: "Prediction64 list forest" where
  "two_huge =
     \<lparr>model_config =
        \<lparr>n_estimators = 2, features_fraction_per_estimator = 1,
         samples_fraction_per_estimator = 1\<rparr>,
      target_dimension_names = [''y''],
      decision_trees =
        replicate 2
          [\<lparr>target_name64 = ''y'', valid64 = True, mean64 = Some (Finite (2 ^ 600)),
            variance64 = Some (Finite 0), count64 = Some 1\<rparr>]\<rparr>"

section \<open>The optimizer: history, best observation, construction\<close>

subsection \<open>The history grows by the registered triples only\<close>

lemma observations_do_call:
  "observations (do_call sub self c) = observations self @ registered [c]"
  by (cases c)
    (auto simp: register_def suggest_def register_pending_def Let_def
          split: option.splits sum.splits prod.splits)

lemma registered_append: "registered (xs @ ys) = registered xs @ registered ys"
  by (induction xs rule: registered.induct) auto

lemma observations_do_calls:
  "observations (do_calls sub self calls) = observations self @ registered calls"
proof (induction calls arbitrary: self)
  case Nil
  then show ?case by simp
next
  case (Cons c cs)
  have "registered (c # cs) = registered [c] @ registered cs"
    using registered_append [of "[c]" cs] by simp
  then show ?case
    using Cons.IH [of "do_call sub self c"] by (simp add: observations_do_call)
qed

lemma aligned_concat_fst:
  "\<forall>ob \<in> set obs. aligned ob \<Longrightarrow>
   map fst (concat (map (\<lambda>(_, score, _). score) obs)) =
   map fst (concat (map (\<lambda>(config, _, _). config) obs))"
  by (induction obs) (auto simp: aligned_def)

lemma aligned_concat_zip:
  "\<forall>ob \<in> set obs. aligned ob \<Longrightarrow>
   map (\<lambda>((l, c), (_, s)). (l, Some c, s))
     (zip (concat (map (\<lambda>(config, _, _). config) obs))
          (concat (map (\<lambda>(_, score, _). score) obs))) =
   map table_row (concat (map observation_rows obs))"
proof (induction obs)
  case Nil
  then show ?case by simp
next
  case (Cons ob obs)
  obtain c s x where ob: "ob = (c, s, x)" by (cases ob) auto
  from Cons.prems ob have "map fst s = map fst c" by (simp add: aligned_def)
  then have len: "length c = length s" by (metis length_map)
  have "map (\<lambda>((l, c), (_, s)). (l, Some c, s)) (zip c s) = map table_row (observation_rows ob)"
    by (simp add: ob observation_rows_def table_row_def split_def)
  then show ?case using Cons len ob by simp
qed

lemma no_context_concat:
  "\<forall>ob \<in> set obs. no_context ob \<Longrightarrow> concat_contexts (map (\<lambda>(_, _, c). c) obs) = None"
  by (auto simp: concat_contexts_def no_context_def list_all_iff)

lemma get_observations_aligned:
  assumes "observations self \<noteq> []"
      and "\<forall>ob \<in> set (observations self). aligned ob"
      and "\<forall>ob \<in> set (observations self). no_context ob"
  shows "get_observations self =
         Inr (map table_row (concat (map observation_rows (observations self))))"
  using assms
  by (simp add: get_observations_def Let_def set_score_column_def aligned_concat_fst
        aligned_concat_zip no_context_concat)

lemma length_observation_rows:
  "aligned ob \<Longrightarrow> length (observation_rows ob) = length (fst ob)"
proof -
  assume a: "aligned ob"
  obtain c s x where ob: "ob = (c, s, x)" by (cases ob) auto
  with a have "map fst s = map fst c" by (simp add: aligned_def)
  then have "length s = length c" by (metis length_map)
  then show ?thesis by (simp add: ob observation_rows_def)
qed

lemma length_single_rows:
  "\<forall>ob \<in> set obs. aligned ob \<and> length (fst ob) = 1 \<Longrightarrow>
   length (concat (map observation_rows obs)) = length obs"
  by (induction obs) (simp_all add: length_observation_rows)

subsection \<open>The first least row\<close>

lemma float_le_refl: "a \<noteq> NaN \<Longrightarrow> float_le a a"
  by (simp add: float_le_def)

lemma float_less_imp_le: "float_less a b \<Longrightarrow> float_le a b"
  by (simp add: float_le_def)

lemma float_not_less: "a \<noteq> NaN \<Longrightarrow> b \<noteq> NaN \<Longrightarrow> \<not> float_less a b \<Longrightarrow> float_le b a"
  by (cases a; cases b) (auto simp: float_le_def)

lemma float_less_trans: "float_less a b \<Longrightarrow> float_less b c \<Longrightarrow> float_less a c"
  by (cases a; cases b; cases c) auto

lemma float_less_le_trans: "float_less a b \<Longrightarrow> float_le b c \<Longrightarrow> float_less a c"
  by (auto simp: float_le_def dest: float_less_trans)

lemma float_le_less_trans: "float_le a b \<Longrightarrow> float_less b c \<Longrightarrow> float_less a c"
  by (auto simp: float_le_def dest: float_less_trans)

lemma float_le_trans: "float_le a b \<Longrightarrow> float_le b c \<Longrightarrow> float_le a c"
  by (auto simp: float_le_def dest: float_less_trans)

lemma first_least_split:
  assumes "\<forall>p \<in> set (b # rs). snd (snd p) \<noteq> NaN"
  shows "\<exists>pre best post. first_least (table_row b) (map table_row rs) = table_row best
          \<and> b # rs = pre @ best # post
          \<and> (\<forall>p \<in> set pre. float_less (snd (snd best)) (snd (snd p)))
          \<and> (\<forall>p \<in> set post. float_le (snd (snd best)) (snd (snd p)))"
  using assms
proof (induction rs arbitrary: b)
  case Nil
  show ?case by (rule exI [of _ "[]"], rule exI [of _ b], rule exI [of _ "[]"]) simp
next
  case (Cons r rs)
  have nb: "snd (snd b) \<noteq> NaN" and nr: "snd (snd r) \<noteq> NaN"
    and nrs: "\<forall>p \<in> set rs. snd (snd p) \<noteq> NaN"
    using Cons.prems by simp_all
  show ?case
  proof (cases "float_less (snd (snd r)) (snd (snd b))")
    case True
    from Cons.IH [of r] nr nrs obtain pre post best where
      h: "first_least (table_row r) (map table_row rs) = table_row best"
         "r # rs = pre @ best # post"
         "\<forall>p \<in> set pre. float_less (snd (snd best)) (snd (snd p))"
         "\<forall>p \<in> set post. float_le (snd (snd best)) (snd (snd p))"
      by auto
    have le: "float_le (snd (snd best)) (snd (snd r))"
    proof (cases pre)
      case Nil
      with h(2) nr show ?thesis by (simp add: float_le_refl)
    next
      case (Cons a list)
      with h(2) have "r \<in> set pre" by simp
      with h(3) show ?thesis by (simp add: float_less_imp_le)
    qed
    with True have lt: "float_less (snd (snd best)) (snd (snd b))"
      by (rule float_le_less_trans [rotated])
    have eq: "first_least (table_row b) (map table_row (r # rs)) = table_row best"
      using True h(1) by (simp add: table_row_def split_def)
    show ?thesis
      apply (rule exI [of _ "b # pre"], rule exI [of _ best], rule exI [of _ post])
      using eq h lt by auto
  next
    case False
    from Cons.IH [of b] nb nrs obtain pre post best where
      h: "first_least (table_row b) (map table_row rs) = table_row best"
         "b # rs = pre @ best # post"
         "\<forall>p \<in> set pre. float_less (snd (snd best)) (snd (snd p))"
         "\<forall>p \<in> set post. float_le (snd (snd best)) (snd (snd p))"
      by auto
    from False nb nr have br: "float_le (snd (snd b)) (snd (snd r))"
      by (simp add: float_not_less)
    have eq: "first_least (table_row b) (map table_row (r # rs)) = table_row best"
      using False h(1) by (simp add: table_row_def split_def)
    show ?thesis
    proof (cases pre)
      case Nil
      with h(2) have bb: "best = b" "post = rs" by simp_all
      show ?thesis
        apply (rule exI [of _ "[]"], rule exI [of _ b], rule exI [of _ "r # rs"])
        using eq bb h br by auto
    next
      case (Cons a pre')
      with h(2) have a: "a = b" "rs = pre' @ best # post" by simp_all
      with h(3) Cons have "float_less (snd (snd best)) (snd (snd b))" by simp
      with br have "float_less (snd (snd best)) (snd (snd r))"
        by (rule float_less_le_trans [rotated])
      then show ?thesis
        apply -
        apply (rule exI [of _ "b # r # pre'"], rule exI [of _ best], rule exI [of _ post])
        using eq a h Cons by auto
    qed
  qed
qed

lemma nsmallest1_table_rows:
  assumes "trows \<noteq> []"
      and "\<forall>p \<in> set trows. snd (snd p) \<noteq> NaN"
  shows "\<exists>pre best post. nsmallest1 (map table_row trows) = [table_row best]
           \<and> trows = pre @ best # post
           \<and> (\<forall>p \<in> set pre. float_less (snd (snd best)) (snd (snd p)))
           \<and> (\<forall>p \<in> set post. float_le (snd (snd best)) (snd (snd p)))"
proof -
  from assms(1) obtain b rs where r: "trows = b # rs" by (cases trows) auto
  have f: "filter (\<lambda>r. snd (snd r) \<noteq> NaN) (map table_row trows) = map table_row trows"
    using assms(2) by (induction trows) (auto simp: table_row_def split_def)
  have "nsmallest1 (map table_row trows) = [first_least (table_row b) (map table_row rs)]"
    unfolding nsmallest1_def f by (simp add: r)
  with first_least_split [of b rs] assms(2) r show ?thesis by metis
qed

lemma no_nan_rows:
  "\<forall>ob \<in> set obs. aligned ob \<and> no_nan_score ob \<Longrightarrow>
   \<forall>p \<in> set (concat (map observation_rows obs)). snd (snd p) \<noteq> NaN"
proof (induction obs)
  case Nil
  then show ?case by simp
next
  case (Cons ob obs)
  obtain c s x where ob: "ob = (c, s, x)" by (cases ob) auto
  from Cons.prems ob have "list_all (\<lambda>(_, v). v \<noteq> NaN) s" by (simp add: no_nan_score_def)
  then have "\<forall>p \<in> set (observation_rows ob). snd (snd p) \<noteq> NaN"
    by (auto simp: ob observation_rows_def list_all_iff dest!: set_zip_rightD)
  with Cons show ?case by auto
qed

lemma three_calls_observations:
  "observations (do_calls accepting_optimizer fresh_optimizer three_calls) =
     [([(0, [7])], [(0, Finite 3)], None), ([(0, [8])], [(0, Finite 1)], None), ([(0, [9])], [(0, Finite 1)], None)]"
  by (simp add: three_calls_def register_def suggest_def register_pending_def
        accepting_optimizer_def fresh_optimizer_def)

subsection \<open>Claims about the optimizer\<close>

text \<open>
  Claim C5, as stated, says that \<^verbatim>\<open>register\<close> fails when the row counts of configurations
  and scores disagree and when a context is supplied. The method of the base class checks
  neither: with a subclass whose \<^verbatim>\<open>_register\<close> accepts its arguments, a call with two
  configurations, one score and a context returns normally.
\<close>

theorem register_validates_nothing_counterexample:
  "fst (register accepting_optimizer fresh_optimizer [(0, [7]), (1, [8])] [(0, Finite 3)] (Some ''load'')) =
     Inr ()"
  by (simp add: register_def accepting_optimizer_def fresh_optimizer_def)

text \<open>
  Claim C5, amended: \<^verbatim>\<open>register\<close> validates nothing itself. It raises exactly when the
  space adapter's \<^verbatim>\<open>inverse_transform\<close> raises, or the subclass's \<^verbatim>\<open>_register\<close> raises on
  the (inverse-transformed) configurations, the scores and the context, and it raises
  their error. So a row-count mismatch or a context makes it fail when the subclass's
  \<^verbatim>\<open>_register\<close> rejects it, and it returns when \<^verbatim>\<open>_register\<close> accepts and the adapter (if
  any) maps the configurations.
\<close>

theorem register_fails_as_collaborators_fail:
  "fst (register sub self configurations scores ctx) =
     (case space_adapter self of
        None \<Rightarrow> fst (subclass_register sub (subclass_state self) configurations scores ctx)
      | Some a \<Rightarrow>
          (case inverse_transform a configurations of
             Inl e \<Rightarrow> Inl e
           | Inr configurations' \<Rightarrow>
               fst (subclass_register sub (subclass_state self) configurations' scores ctx)))
   \<and> ((\<forall>u c. \<exists>e. fst (subclass_register sub u c scores ctx) = Inl e) \<longrightarrow>
        (\<exists>e. fst (register sub self configurations scores ctx) = Inl e))
   \<and> ((\<forall>u c. fst (subclass_register sub u c scores ctx) = Inr ())
        \<and> (\<forall>a. space_adapter self = Some a \<longrightarrow> (\<exists>c. inverse_transform a configurations = Inr c))
        \<longrightarrow> fst (register sub self configurations scores ctx) = Inr ())"
proof (intro conjI impI)
  show "fst (register sub self configurations scores ctx) =
     (case space_adapter self of
        None \<Rightarrow> fst (subclass_register sub (subclass_state self) configurations scores ctx)
      | Some a \<Rightarrow>
          (case inverse_transform a configurations of
             Inl e \<Rightarrow> Inl e
           | Inr configurations' \<Rightarrow>
               fst (subclass_register sub (subclass_state self) configurations' scores ctx)))"
    by (simp add: register_def Let_def split: option.splits sum.splits prod.splits)
next
  assume "\<forall>u c. \<exists>e. fst (subclass_register sub u c scores ctx) = Inl e"
  then show "\<exists>e. fst (register sub self configurations scores ctx) = Inl e"
    by (simp add: register_def Let_def split: option.splits sum.splits prod.splits)
      (metis fst_conv)
next
  assume "(\<forall>u c. fst (subclass_register sub u c scores ctx) = Inr ())
        \<and> (\<forall>a. space_adapter self = Some a \<longrightarrow> (\<exists>c. inverse_transform a configurations = Inr c))"
  then show "fst (register sub self configurations scores ctx) = Inr ()"
    by (simp add: register_def Let_def split: option.splits sum.splits prod.splits)
      (metis fst_conv sum.distinct(1))
qed

theorem register_fails_as_collaborators_fail_witness:
  "fst (register rejecting_optimizer fresh_optimizer [(0, [7])] [(0, Finite 3)] (Some ''load'')) =
     Inl NotImplementedError
   \<and> fst (register accepting_optimizer fresh_optimizer [(0, [7])] [(0, Finite 3)] None) = Inr ()"
proof -
  have r: "\<forall>u c. \<exists>e. fst (subclass_register rejecting_optimizer u c [(0, Finite 3)] (Some ''load'')) = Inl e"
    by (simp add: rejecting_optimizer_def)
  have a: "(\<forall>u c. fst (subclass_register accepting_optimizer u c [(0, Finite 3)] None) = Inr ())
           \<and> (\<forall>a. space_adapter fresh_optimizer = Some a \<longrightarrow>
                  (\<exists>c. inverse_transform a [(0, [7])] = Inr c))"
    by (simp add: accepting_optimizer_def fresh_optimizer_def)
  have n: "space_adapter fresh_optimizer = None" "subclass_state fresh_optimizer = 0"
    by (simp_all add: fresh_optimizer_def)
  from register_fails_as_collaborators_fail
         [of rejecting_optimizer fresh_optimizer "[(0, [7])]" "[(0, Finite 3)]" "Some ''load''"]
       register_fails_as_collaborators_fail
         [of accepting_optimizer fresh_optimizer "[(0, [7])]" "[(0, Finite 3)]" None]
       r a n
  show ?thesis by (simp add: rejecting_optimizer_def)
qed

text \<open>
  Claim C6, as stated, speaks of every non-empty history. A history holding an observation
  with a context is non-empty, and is reached by one \<^verbatim>\<open>register\<close> call (the triple is
  recorded even when the subclass then rejects the context); on it \<^verbatim>\<open>get_observations\<close>,
  and with it \<^verbatim>\<open>get_best_observation\<close>, raises \<^verbatim>\<open>NotImplementedError\<close>.
\<close>

theorem get_best_observation_context_counterexample:
  "observations (snd (register rejecting_optimizer fresh_optimizer [(0, [7])] [(0, Finite 3)] (Some ''load''))) \<noteq> []
   \<and> get_best_observation
       (snd (register rejecting_optimizer fresh_optimizer [(0, [7])] [(0, Finite 3)] (Some ''load''))) =
     Inl NotImplementedError"
  by (simp add: register_def rejecting_optimizer_def fresh_optimizer_def get_best_observation_def
        get_observations_def set_score_column_def concat_contexts_def)

text \<open>
  What \<^verbatim>\<open>nsmallest\<close> does with a NaN score: it passes over the row, so on a table with scores
  NaN and 2 the row returned has score 2, and NaN is not above it.
\<close>

lemma get_best_observation_passes_over_nan:
  "get_best_observation
     (snd (register accepting_optimizer fresh_optimizer [(0, [7]), (1, [8])] [(0, NaN), (1, Finite 2)]
             None)) =
   Inr [(1, Some [8], Finite 2)]
   \<and> \<not> float_le (Finite 2) NaN"
  by (simp add: register_def accepting_optimizer_def fresh_optimizer_def get_best_observation_def
        get_observations_def set_score_column_def concat_contexts_def nsmallest1_def float_le_def)

text \<open>
  Claim C6, amended: on an empty history \<^verbatim>\<open>get_observations\<close> and
  \<^verbatim>\<open>get_best_observation\<close> both raise \<^verbatim>\<open>ValueError("No observations registered yet.")\<close>.
  On a history in which no observation carries a context, no score is NaN, the scores of
  every observation have the index of its configurations, and there is at least one row,
  \<^verbatim>\<open>get_observations\<close> returns all rows in insertion order and \<^verbatim>\<open>get_best_observation\<close>
  returns one row of them: its score is strictly below the score of every earlier row and
  at most the score of every later row, so it is the first row of least score.
\<close>

theorem get_best_observation_first_least:
  "(observations self = [] \<longrightarrow>
      get_observations self = Inl (ValueError ''No observations registered yet.'')
      \<and> get_best_observation self = Inl (ValueError ''No observations registered yet.''))
   \<and> ((\<forall>ob \<in> set (observations self). aligned ob \<and> no_context ob \<and> no_nan_score ob)
       \<and> concat (map observation_rows (observations self)) \<noteq> [] \<longrightarrow>
       (\<exists>pre best post.
          concat (map observation_rows (observations self)) = pre @ best # post
          \<and> get_observations self = Inr (map table_row (pre @ best # post))
          \<and> get_best_observation self = Inr [table_row best]
          \<and> (\<forall>p \<in> set pre. float_less (snd (snd best)) (snd (snd p)))
          \<and> (\<forall>p \<in> set post. float_le (snd (snd best)) (snd (snd p)))))"
proof (intro conjI impI)
  assume "observations self = []"
  then show "get_observations self = Inl (ValueError ''No observations registered yet.'')"
    by (simp add: get_observations_def)
next
  assume "observations self = []"
  then show "get_best_observation self = Inl (ValueError ''No observations registered yet.'')"
    by (simp add: get_best_observation_def)
next
  let ?rows = "concat (map observation_rows (observations self))"
  assume h: "(\<forall>ob \<in> set (observations self). aligned ob \<and> no_context ob \<and> no_nan_score ob)
             \<and> ?rows \<noteq> []"
  then have ne: "observations self \<noteq> []" by auto
  from h have go: "get_observations self = Inr (map table_row ?rows)"
    using get_observations_aligned [OF ne] by blast
  from h have nn: "\<forall>p \<in> set ?rows. snd (snd p) \<noteq> NaN"
    using no_nan_rows [of "observations self"] by blast
  from h nsmallest1_table_rows [of ?rows, OF _ nn] obtain pre best post where
    b: "nsmallest1 (map table_row ?rows) = [table_row best]" "?rows = pre @ best # post"
       "\<forall>p \<in> set pre. float_less (snd (snd best)) (snd (snd p))"
       "\<forall>p \<in> set post. float_le (snd (snd best)) (snd (snd p))"
    by blast
  have "get_best_observation self = Inr [table_row best]"
    using ne go b(1) by (simp add: get_best_observation_def)
  with go b show "\<exists>pre best post.
          ?rows = pre @ best # post
          \<and> get_observations self = Inr (map table_row (pre @ best # post))
          \<and> get_best_observation self = Inr [table_row best]
          \<and> (\<forall>p \<in> set pre. float_less (snd (snd best)) (snd (snd p)))
          \<and> (\<forall>p \<in> set post. float_le (snd (snd best)) (snd (snd p)))"
    by metis
qed

theorem get_best_observation_first_least_witness:
  "observations fresh_optimizer = []
   \<and> get_best_observation fresh_optimizer = Inl (ValueError ''No observations registered yet.'')
   \<and> get_observations fresh_optimizer = Inl (ValueError ''No observations registered yet.'')
   \<and> get_observations (do_calls accepting_optimizer fresh_optimizer three_calls) =
       Inr [(0, Some [7], Finite 3), (0, Some [8], Finite 1), (0, Some [9], Finite 1)]
   \<and> get_best_observation (do_calls accepting_optimizer fresh_optimizer three_calls) =
       Inr [(0, Some [8], Finite 1)]"
proof -
  let ?s = "do_calls accepting_optimizer fresh_optimizer three_calls"
  have e: "observations fresh_optimizer = []" by (simp add: fresh_optimizer_def)
  have rows: "concat (map observation_rows (observations ?s)) =
                [(0, [7], Finite 3), (0, [8], Finite 1), (0, [9], Finite 1)]"
    by (simp add: three_calls_observations observation_rows_def)
  have h: "(\<forall>ob \<in> set (observations ?s). aligned ob \<and> no_context ob \<and> no_nan_score ob)
           \<and> concat (map observation_rows (observations ?s)) \<noteq> []"
    unfolding rows
    by (simp add: three_calls_observations aligned_def no_context_def no_nan_score_def)
  from get_best_observation_first_least [of ?s] h obtain pre best post where
    b: "concat (map observation_rows (observations ?s)) = pre @ best # post"
       "get_observations ?s = Inr (map table_row (pre @ best # post))"
       "get_best_observation ?s = Inr [table_row best]"
       "\<forall>p \<in> set pre. float_less (snd (snd best)) (snd (snd p))"
       "\<forall>p \<in> set post. float_le (snd (snd best)) (snd (snd p))"
    by blast
  from b(1) rows
  have split: "[(0, [7], Finite 3), (0, [8], Finite 1), (0, [9], Finite 1)] = pre @ best # post"
    by simp
  have "best = (0, [8], Finite 1)"
  proof -
    from split consider
      "pre = [] \<and> best = (0, [7], Finite 3) \<and> post = [(0, [8], Finite 1), (0, [9], Finite 1)]"
      | "pre = [(0, [7], Finite 3)] \<and> best = (0, [8], Finite 1) \<and> post = [(0, [9], Finite 1)]"
      | "pre = [(0, [7], Finite 3), (0, [8], Finite 1)] \<and> best = (0, [9], Finite 1) \<and> post = []"
      by (auto simp: Cons_eq_append_conv)
    then show ?thesis
    proof cases
      case 1
      with b(5) show ?thesis by (simp add: float_le_def)
    next
      case 2
      then show ?thesis by simp
    next
      case 3
      with b(4) show ?thesis by simp
    qed
  qed
  moreover have "get_observations ?s =
      Inr (map table_row [(0, [7], Finite 3), (0, [8], Finite 1), (0, [9], Finite 1)])"
    using b(2) [folded b(1)] by (simp only: rows)
  ultimately show ?thesis
    using b(3) e get_best_observation_first_least [of fresh_optimizer]
    by (simp add: table_row_def)
qed

text \<open>
  Claim C7, as stated, counts one row per \<^verbatim>\<open>register\<close> call. A call registers a table of
  configurations, and every row of it becomes a row of \<^verbatim>\<open>get_observations\<close>: one call
  with a table of two rows yields two rows.
\<close>

theorem register_append_only_counterexample:
  "get_observations
     (do_calls accepting_optimizer fresh_optimizer
        [Register [(0, [7]), (1, [8])] [(0, Finite 3), (1, Finite 4)] None]) =
   Inr [(0, Some [7], Finite 3), (1, Some [8], Finite 4)]"
  by (simp add: register_def accepting_optimizer_def fresh_optimizer_def get_observations_def
        set_score_column_def concat_contexts_def)

text \<open>
  Claim C7, amended: whatever calls of \<^verbatim>\<open>register\<close>, \<^verbatim>\<open>suggest\<close> and
  \<^verbatim>\<open>register_pending\<close> are made, in whatever order and whether they return or raise, the
  history afterwards is the history before followed by the triples of the \<^verbatim>\<open>register\<close>
  calls in call order: nothing is removed or changed. When the history is then non-empty,
  no observation carries a context and the scores of every observation have the index of
  its configurations, \<^verbatim>\<open>get_observations\<close> returns the rows of all registered tables in
  call order; these are as many rows as observations when every table has one row.
\<close>

theorem register_is_append_only:
  "observations (do_calls sub self calls) = observations self @ registered calls
   \<and> ((\<forall>ob \<in> set (observations self @ registered calls). aligned ob \<and> no_context ob)
       \<and> observations self @ registered calls \<noteq> [] \<longrightarrow>
       get_observations (do_calls sub self calls) =
         Inr (map table_row
                (concat (map observation_rows (observations self @ registered calls))))
       \<and> ((\<forall>ob \<in> set (observations self @ registered calls). length (fst ob) = 1) \<longrightarrow>
            length (concat (map observation_rows (observations self @ registered calls))) =
              length (observations self) + length (registered calls)))"
proof (intro conjI impI)
  show o: "observations (do_calls sub self calls) = observations self @ registered calls"
    by (rule observations_do_calls)
  {
    assume h: "(\<forall>ob \<in> set (observations self @ registered calls). aligned ob \<and> no_context ob)
       \<and> observations self @ registered calls \<noteq> []"
    let ?s = "do_calls sub self calls"
    from h o have "observations ?s \<noteq> []" "\<forall>ob \<in> set (observations ?s). aligned ob"
      "\<forall>ob \<in> set (observations ?s). no_context ob"
      by simp_all
    from get_observations_aligned [OF this] o
    show "get_observations ?s =
         Inr (map table_row
                (concat (map observation_rows (observations self @ registered calls))))"
      by simp
    assume "\<forall>ob \<in> set (observations self @ registered calls). length (fst ob) = 1"
    with h have "\<forall>ob \<in> set (observations self @ registered calls). aligned ob \<and> length (fst ob) = 1"
      by blast
    from length_single_rows [OF this]
    show "length (concat (map observation_rows (observations self @ registered calls))) =
              length (observations self) + length (registered calls)"
      by simp
  }
qed

theorem register_is_append_only_witness:
  "observations (do_calls accepting_optimizer fresh_optimizer three_calls) =
     [([(0, [7])], [(0, Finite 3)], None), ([(0, [8])], [(0, Finite 1)], None), ([(0, [9])], [(0, Finite 1)], None)]
   \<and> get_observations (do_calls accepting_optimizer fresh_optimizer three_calls) =
       Inr [(0, Some [7], Finite 3), (0, Some [8], Finite 1), (0, Some [9], Finite 1)]
   \<and> length (registered three_calls) = 3"
proof -
  have r: "registered three_calls =
     [([(0, [7])], [(0, Finite 3)], None), ([(0, [8])], [(0, Finite 1)], None), ([(0, [9])], [(0, Finite 1)], None)]"
    by (simp add: three_calls_def)
  have e: "observations fresh_optimizer = []" by (simp add: fresh_optimizer_def)
  have h: "(\<forall>ob \<in> set (observations fresh_optimizer @ registered three_calls).
              aligned ob \<and> no_context ob)
           \<and> observations fresh_optimizer @ registered three_calls \<noteq> []"
    by (simp add: r e aligned_def no_context_def)
  have s: "\<forall>ob \<in> set (observations fresh_optimizer @ registered three_calls). length (fst ob) = 1"
    by (simp add: r e)
  show ?thesis
    using register_is_append_only [of accepting_optimizer fresh_optimizer three_calls] h s
    by (simp add: r e observation_rows_def table_row_def)
qed

text \<open>
  Claim C8: construction raises \<^verbatim>\<open>ValueError\<close> whenever an adapter is supplied whose
  original parameter space differs from the optimizer's parameter space; when construction
  succeeds, \<^verbatim>\<open>optimizer_parameter_space\<close> is the adapter's target space if an adapter was
  supplied and the parameter space itself otherwise.
\<close>

theorem init_checks_space_adapter:
  "(\<forall>a. space_adapter' = Some a \<and> orig_parameter_space a \<noteq> ps \<longrightarrow>
        (\<exists>msg. init ps space_adapter' u = Inl (ValueError msg)))
   \<and> (\<forall>self. init ps space_adapter' u = Inr self \<longrightarrow>
        parameter_space self = ps
        \<and> optimizer_parameter_space self =
            (case space_adapter' of None \<Rightarrow> ps | Some a \<Rightarrow> target_parameter_space a))"
  by (auto simp: init_def split: option.splits if_splits)

theorem init_checks_space_adapter_witness:
  "(\<exists>msg. (init ''space'' (Some (identity_adapter ''other_space'')) (0::nat)
              :: error + (string, real list, string, nat) base_optimizer) = Inl (ValueError msg))
   \<and> init ''space'' None 0 = Inr fresh_optimizer
   \<and> optimizer_parameter_space fresh_optimizer = ''space''
   \<and> (\<exists>self. (init ''space'' (Some (identity_adapter ''space'')) (0::nat)
              :: error + (string, real list, string, nat) base_optimizer) = Inr self
        \<and> optimizer_parameter_space self = ''low_dimensional_space'')"
proof -
  let ?bad = "identity_adapter ''other_space''"
  have 1: "orig_parameter_space ?bad \<noteq> ''space''" by (simp add: identity_adapter_def)
  have 2: "init ''space'' None 0 = Inr fresh_optimizer"
    by (simp add: init_def fresh_optimizer_def)
  have 3: "(init ''space'' (Some (identity_adapter ''space'')) (0::nat)
              :: error + (string, real list, string, nat) base_optimizer) =
           Inr \<lparr>parameter_space = ''space'', optimizer_parameter_space = ''low_dimensional_space'',
                 space_adapter = Some (identity_adapter ''space''), observations = [],
                 pending_observations = [], subclass_state = 0\<rparr>"
    by (simp add: init_def identity_adapter_def)
  show ?thesis
    using init_checks_space_adapter [of "Some ?bad" "''space''" "0::nat"]
      init_checks_space_adapter [of None "''space''" "0::nat"]
      init_checks_space_adapter [of "Some (identity_adapter ''space'')" "''space''" "0::nat"]
      1 2 3
    by auto
qed

text \<open>
  Claim C10, as stated, says that after a failed \<^verbatim>\<open>register\<close> the observation is in the
  history that \<^verbatim>\<open>get_observations()\<close> returns. When the call fails because the subclass
  rejects the context, the triple is in the optimizer's list, and \<^verbatim>\<open>get_observations()\<close>
  returns no history: it raises \<^verbatim>\<open>NotImplementedError\<close>.
\<close>

theorem register_keeps_observation_counterexample:
  "fst (register rejecting_optimizer fresh_optimizer [(0, [7])] [(0, Finite 3)] (Some ''load'')) =
     Inl NotImplementedError
   \<and> observations
        (snd (register rejecting_optimizer fresh_optimizer [(0, [7])] [(0, Finite 3)] (Some ''load''))) =
     [([(0, [7])], [(0, Finite 3)], Some ''load'')]
   \<and> get_observations
        (snd (register rejecting_optimizer fresh_optimizer [(0, [7])] [(0, Finite 3)] (Some ''load''))) =
     Inl NotImplementedError"
  by (simp add: register_def rejecting_optimizer_def fresh_optimizer_def get_observations_def
        set_score_column_def concat_contexts_def)

text \<open>
  Claim C10, amended: \<^verbatim>\<open>register\<close> is not atomic. When it raises, the error is that of the
  adapter's \<^verbatim>\<open>inverse_transform\<close> or of the subclass's \<^verbatim>\<open>_register\<close>, and the triple it
  was given is nevertheless the last entry of the optimizer's history. When no observation
  of that history carries a context and the scores of each have the index of its
  configurations, \<^verbatim>\<open>get_observations()\<close> returns the rows of the history, those of the failed
  call last.
\<close>

theorem register_keeps_observation_on_error:
  assumes "fst (register sub self configurations scores ctx) = Inl e"
  shows "observations (snd (register sub self configurations scores ctx)) =
           observations self @ [(configurations, scores, ctx)]
         \<and> (case space_adapter self of
               None \<Rightarrow>
                 fst (subclass_register sub (subclass_state self) configurations scores ctx) = Inl e
             | Some a \<Rightarrow>
                 (case inverse_transform a configurations of
                    Inl e' \<Rightarrow> e' = e
                  | Inr configurations' \<Rightarrow>
                      fst (subclass_register sub (subclass_state self) configurations' scores ctx) =
                        Inl e))
         \<and> ((\<forall>ob \<in> set (observations self @ [(configurations, scores, ctx)]).
                aligned ob \<and> no_context ob) \<longrightarrow>
              get_observations (snd (register sub self configurations scores ctx)) =
                Inr (map table_row (concat (map observation_rows (observations self)))
                     @ map table_row (observation_rows (configurations, scores, ctx))))"
proof -
  let ?after = "snd (register sub self configurations scores ctx)"
  have obs: "observations ?after = observations self @ [(configurations, scores, ctx)]"
    by (auto simp: register_def Let_def split: option.splits sum.splits prod.splits)
  have origin: "(case space_adapter self of
               None \<Rightarrow>
                 fst (subclass_register sub (subclass_state self) configurations scores ctx) = Inl e
             | Some a \<Rightarrow>
                 (case inverse_transform a configurations of
                    Inl e' \<Rightarrow> e' = e
                  | Inr configurations' \<Rightarrow>
                      fst (subclass_register sub (subclass_state self) configurations' scores ctx) =
                        Inl e))"
    using assms
    by (auto simp: register_def Let_def split: option.splits sum.splits prod.splits)
  have returned: "(\<forall>ob \<in> set (observations self @ [(configurations, scores, ctx)]).
                aligned ob \<and> no_context ob) \<longrightarrow>
              get_observations ?after =
                Inr (map table_row (concat (map observation_rows (observations self)))
                     @ map table_row (observation_rows (configurations, scores, ctx)))"
  proof
    assume h: "\<forall>ob \<in> set (observations self @ [(configurations, scores, ctx)]).
                 aligned ob \<and> no_context ob"
    with obs have "observations ?after \<noteq> []" "\<forall>ob \<in> set (observations ?after). aligned ob"
      "\<forall>ob \<in> set (observations ?after). no_context ob"
      by simp_all
    from get_observations_aligned [OF this] obs
    show "get_observations ?after =
                Inr (map table_row (concat (map observation_rows (observations self)))
                     @ map table_row (observation_rows (configurations, scores, ctx)))"
      by simp
  qed
  from obs origin returned show ?thesis by blast
qed

theorem register_keeps_observation_on_error_witness:
  "fst (register failing_optimizer fresh_optimizer [(0, [7])] [(0, Finite 3)] None) =
     Inl (ValueError ''model update failed'')
   \<and> observations (snd (register failing_optimizer fresh_optimizer [(0, [7])] [(0, Finite 3)] None)) =
     [([(0, [7])], [(0, Finite 3)], None)]
   \<and> get_observations (snd (register failing_optimizer fresh_optimizer [(0, [7])] [(0, Finite 3)] None)) =
     Inr [(0, Some [7], Finite 3)]"
proof -
  have h: "fst (register failing_optimizer fresh_optimizer [(0, [7])] [(0, Finite 3)] None) =
     Inl (ValueError ''model update failed'')"
    by (simp add: register_def failing_optimizer_def fresh_optimizer_def)
  have a: "\<forall>ob \<in> set (observations fresh_optimizer @ [([(0, [7])], [(0, Finite 3)], None)]).
             aligned ob \<and> no_context ob"
    by (simp add: fresh_optimizer_def aligned_def no_context_def)
  show ?thesis
    using h a register_keeps_observation_on_error [OF h]
    by (simp add: fresh_optimizer_def observation_rows_def table_row_def)
qed

section \<open>The forest: prediction\<close>

subsection \<open>Results of list comprehensions and of the aggregation\<close>

lemma sequence_map_Inr:
  "\<forall>x \<in> set xs. f x = Inr (h x) \<Longrightarrow> sequence (map f xs) = Inr (map h xs)"
  by (induction xs) auto

lemma sequence_Inr_nth:
  "sequence rs = Inr xs \<Longrightarrow> length xs = length rs \<and> (\<forall>i < length rs. rs ! i = Inr (xs ! i))"
proof (induction rs arbitrary: xs rule: sequence.induct)
  case 1
  then show ?case by simp
next
  case (2 e uu)
  then show ?case by simp
next
  case (3 x rs)
  then obtain ys where ys: "sequence rs = Inr ys" "xs = x # ys"
    by (auto split: sum.splits)
  with 3 have "length ys = length rs \<and> (\<forall>i < length rs. rs ! i = Inr (ys ! i))" by simp
  with ys show ?case by (auto simp: nth_Cons')
qed

lemma numbers_map_Some: "numbers (map Some xs) = Inr xs"
  by (induction xs) auto

lemma numbers_defined:
  "\<forall>x \<in> set xs. x \<noteq> None \<Longrightarrow> numbers xs = Inr (map the xs)"
  by (induction xs rule: numbers.induct) auto

lemma numbers_Inr: "numbers xs = Inr ys \<Longrightarrow> xs = map Some ys"
  by (induction xs arbitrary: ys rule: numbers.induct) (auto split: sum.splits)


lemma list_ex_filter_valid: "filter valid ms \<noteq> [] \<Longrightarrow> list_ex valid (filter valid ms)"
  by (induction ms) auto

lemma aggregate_some_valid:
  assumes "filter valid ms \<noteq> []"
      and "\<forall>q \<in> set ms. valid q \<longrightarrow> mean q \<noteq> None \<and> variance q \<noteq> None"
  shows "aggregate names ms =
     Inr \<lparr>target_name = target_name (hd (filter valid ms)),
          valid = True,
          mean = Some (np_mean (map (the \<circ> mean) (filter valid ms))),
          variance = Some (np_mean (map (\<lambda>q. the (variance q) + (the (mean q))\<^sup>2) (filter valid ms))
                            - (np_mean (map (the \<circ> mean) (filter valid ms)))\<^sup>2),
          count = Some (length (filter valid ms))\<rparr>"
proof -
  let ?vs = "filter valid ms"
  have m: "numbers (map mean ?vs) = Inr (map (the \<circ> mean) ?vs)"
    using assms(2) numbers_defined [of "map mean ?vs"] by auto
  have "\<forall>q \<in> set ?vs. second_moment q = Some (the (variance q) + (the (mean q))\<^sup>2)"
    using assms(2) by (auto simp: second_moment_def)
  then have "map second_moment ?vs = map Some (map (\<lambda>q. the (variance q) + (the (mean q))\<^sup>2) ?vs)"
    by simp
  then have s: "numbers (map second_moment ?vs) =
             Inr (map (\<lambda>q. the (variance q) + (the (mean q))\<^sup>2) ?vs)"
    by (simp only: numbers_map_Some)
  show ?thesis
    using assms(1) list_ex_filter_valid [OF assms(1)]
    by (simp add: aggregate_def Let_def m s)
qed

lemma predict_row:
  assumes "sequence (map (\<lambda>t. tree_predict ops t (translate_input ops X)) (decision_trees self)) =
             Inr predictions"
      and "predict ops self X = Inr ps"
  shows "length ps = length (rows (translate_input ops X))
         \<and> (\<forall>r < length ps. (\<forall>p \<in> set predictions. r < length p)
              \<and> aggregate (target_dimension_names self) (map (\<lambda>p. p ! r) predictions) = Inr (ps ! r))"
proof -
  let ?n = "length (rows (translate_input ops X))"
  let ?f = "\<lambda>observation_id.
              case sequence (map (\<lambda>p. nth_checked p observation_id) predictions) of
                Inl e \<Rightarrow> Inl e
              | Inr member_predictions \<Rightarrow>
                  aggregate (target_dimension_names self) member_predictions"
  from assms have sq: "sequence (map ?f [0 ..< ?n]) = Inr ps"
    by (simp add: predict_def Let_def)
  from sequence_Inr_nth [OF sq] have len: "length ps = ?n"
    and each: "\<forall>r < ?n. ?f r = Inr (ps ! r)" by auto
  {
    fix r assume r: "r < length ps"
    with len each have fr: "?f r = Inr (ps ! r)" by simp
    then obtain ms where ms: "sequence (map (\<lambda>p. nth_checked p r) predictions) = Inr ms"
      "aggregate (target_dimension_names self) ms = Inr (ps ! r)"
      by (auto split: sum.splits)
    from sequence_Inr_nth [OF ms(1)] have l: "length ms = length predictions"
      and n: "\<forall>i < length predictions. nth_checked (predictions ! i) r = Inr (ms ! i)" by auto
    have inb: "\<forall>p \<in> set predictions. r < length p"
    proof
      fix p assume "p \<in> set predictions"
      then obtain i where "i < length predictions" "predictions ! i = p"
        by (auto simp: in_set_conv_nth)
      with n show "r < length p" by (auto simp: nth_checked_def split: if_splits)
    qed
    have "ms = map (\<lambda>p. p ! r) predictions"
      using l n inb by (auto simp: list_eq_iff_nth_eq nth_checked_def split: if_splits)
    with ms(2) inb have "(\<forall>p \<in> set predictions. r < length p)
              \<and> aggregate (target_dimension_names self) (map (\<lambda>p. p ! r) predictions) = Inr (ps ! r)"
      by simp
  }
  with len show ?thesis by blast
qed


lemma aggregate_Inr_complete:
  assumes "aggregate names ms = Inr p"
      and "filter valid ms \<noteq> []"
  shows "\<forall>q \<in> set ms. valid q \<longrightarrow> mean q \<noteq> None \<and> variance q \<noteq> None"
proof -
  let ?vs = "filter valid ms"
  from assms list_ex_filter_valid [OF assms(2)] obtain means moments where
    m: "numbers (map mean ?vs) = Inr means"
    and s: "numbers (map second_moment ?vs) = Inr moments"
    by (auto simp: aggregate_def Let_def split: sum.splits)
  from numbers_Inr [OF m] have "\<forall>q \<in> set ?vs. mean q \<noteq> None"
    by (metis (no_types, lifting) imageI list.set_map option.distinct(1) ex_map_conv)
  moreover from numbers_Inr [OF s] have "\<forall>q \<in> set ?vs. second_moment q \<noteq> None"
    by (metis (no_types, lifting) imageI list.set_map option.distinct(1) ex_map_conv)
  then have "\<forall>q \<in> set ?vs. variance q \<noteq> None"
    by (auto simp: second_moment_def split: option.splits)
  ultimately show ?thesis by auto
qed

lemma three_members_predictions:
  "sequence (map (\<lambda>t. tree_predict replaying_members t (translate_input replaying_members two_queries))
               (decision_trees three_members)) =
   Inr (decision_trees three_members)"
  by (simp add: replaying_members_def three_members_def)


lemma three_members_predict:
  "predict replaying_members three_members two_queries =
     Inr [\<lparr>target_name = ''y'', valid = True, mean = Some 2, variance = Some 2, count = Some 2\<rparr>,
          \<lparr>target_name = ''y'', valid = False, mean = None, variance = None, count = None\<rparr>]"
  by (simp add: predict_def replaying_members_def three_members_def two_queries_def
        no_prediction_def aggregate_def nth_checked_def np_mean_def second_moment_def
        upt_conv_Cons Let_def)

subsection \<open>The mean of squares bounds the square of the mean\<close>

lemma twice_product_le_squares:
  fixes a :: real
  shows "2 * a * sum_list xs \<le> real (length xs) * a\<^sup>2 + sum_list (map (\<lambda>x. x\<^sup>2) xs)"
proof (induction xs)
  case Nil
  then show ?case by simp
next
  case (Cons x xs)
  have "0 \<le> (a - x)\<^sup>2" by simp
  then have "2 * a * x \<le> a\<^sup>2 + x\<^sup>2" by (simp add: power2_diff)
  with Cons show ?case by (simp add: algebra_simps)
qed

lemma square_sum_le_sum_squares:
  fixes xs :: "real list"
  shows "(sum_list xs)\<^sup>2 \<le> real (length xs) * sum_list (map (\<lambda>x. x\<^sup>2) xs)"
proof (induction xs)
  case Nil
  then show ?case by simp
next
  case (Cons a xs)
  have "(a + sum_list xs)\<^sup>2 = a\<^sup>2 + 2 * a * sum_list xs + (sum_list xs)\<^sup>2"
    by (simp add: power2_sum)
  also have "\<dots> \<le> a\<^sup>2 + (real (length xs) * a\<^sup>2 + sum_list (map (\<lambda>x. x\<^sup>2) xs))
                  + real (length xs) * sum_list (map (\<lambda>x. x\<^sup>2) xs)"
    using Cons twice_product_le_squares [of a xs] by linarith
  also have "\<dots> = real (length (a # xs)) * sum_list (map (\<lambda>x. x\<^sup>2) (a # xs))"
    by (simp add: algebra_simps)
  finally show ?case by simp
qed

lemma square_mean_le_mean_squares:
  fixes xs :: "real list"
  assumes "xs \<noteq> []"
  shows "(np_mean xs)\<^sup>2 \<le> np_mean (map (\<lambda>x. x\<^sup>2) xs)"
proof -
  let ?n = "real (length xs)"
  from assms have n: "0 < ?n" by simp
  have "(np_mean xs)\<^sup>2 = (sum_list xs)\<^sup>2 / (?n * ?n)"
    by (simp add: np_mean_def power_divide power2_eq_square)
  also have "\<dots> \<le> (?n * sum_list (map (\<lambda>x. x\<^sup>2) xs)) / (?n * ?n)"
    by (rule divide_right_mono [OF square_sum_le_sum_squares]) simp
  also have "\<dots> = np_mean (map (\<lambda>x. x\<^sup>2) xs)"
    using n by (simp add: np_mean_def)
  finally show ?thesis .
qed

lemma sum_list_add_map:
  fixes f g :: "'a \<Rightarrow> real"
  shows "sum_list (map (\<lambda>q. f q + g q) qs) = sum_list (map f qs) + sum_list (map g qs)"
  by (induction qs) auto

lemma total_variance_nonnegative:
  assumes "qs \<noteq> []"
      and "\<forall>q \<in> set qs. 0 \<le> v q"
  shows "0 \<le> np_mean (map (\<lambda>q. v q + (m q)\<^sup>2) qs) - (np_mean (map m qs))\<^sup>2"
proof -
  let ?n = "real (length qs)"
  from assms(1) have n: "0 < ?n" by simp
  have v: "0 \<le> sum_list (map v qs)"
    by (rule sum_list_nonneg) (use assms(2) in auto)
  have "np_mean (map (\<lambda>q. v q + (m q)\<^sup>2) qs) =
          sum_list (map v qs) / ?n + np_mean (map (\<lambda>x. x\<^sup>2) (map m qs))"
    by (simp add: np_mean_def sum_list_add_map add_divide_distrib comp_def)
  moreover have "(np_mean (map m qs))\<^sup>2 \<le> np_mean (map (\<lambda>x. x\<^sup>2) (map m qs))"
    using square_mean_le_mean_squares [of "map m qs"] assms(1) by simp
  moreover have "0 \<le> sum_list (map v qs) / ?n" using v n by simp
  ultimately show ?thesis by linarith
qed

subsection \<open>The aggregation over floats has the same shape\<close>

text \<open>
  Whatever the squaring functions, when the power of a member's mean does not raise,
  \<^verbatim>\<open>predict\<close> over floats returns one prediction per row, in row order: the invalid one where no member prediction is valid, and otherwise the valid
  one whose count is the number of valid members, whose mean is numpy's mean of their means
  and whose variance is the float value of \<^verbatim>\<open>np.mean([v + m ** 2 ...]) - mean ** 2\<close>.
\<close>

lemma floats_defined:
  "\<forall>x \<in> set xs. x \<noteq> None \<Longrightarrow> floats xs = Inr (map the xs)"
  by (induction xs rule: floats.induct) auto

lemma list_ex_filter_valid64:
  "filter valid64 ms \<noteq> [] \<Longrightarrow> list_ex valid64 (filter valid64 ms)"
  by (induction ms) auto

lemma aggregate_float64_shape:
  assumes "\<forall>q \<in> set ms. valid64 q \<longrightarrow> mean64 q \<noteq> None \<and> variance64 q \<noteq> None"
      and "names \<noteq> []"
  shows "aggregate_float64 (\<lambda>x. Inr (square' x)) square names ms =
     Inr (let vs = filter valid64 ms
          in if vs = []
             then \<lparr>target_name64 = hd names, valid64 = False, mean64 = None,
                   variance64 = None, count64 = None\<rparr>
             else \<lparr>target_name64 = target_name64 (hd vs),
                   valid64 = True,
                   mean64 = Some (np_mean_float64 (map (the \<circ> mean64) vs)),
                   variance64 =
                     Some (float_sub
                             (np_mean_float64
                                (map (\<lambda>q. float_add (the (variance64 q)) (square' (the (mean64 q))))
                                   vs))
                             (square (np_mean_float64 (map (the \<circ> mean64) vs)))),
                   count64 = Some (length vs)\<rparr>)"
proof (cases "filter valid64 ms = []")
  case True
  with assms(2) show ?thesis by (cases names) (simp_all add: aggregate_float64_def)
next
  case False
  let ?vs = "filter valid64 ms"
  have m: "floats (map mean64 ?vs) = Inr (map (the \<circ> mean64) ?vs)"
    using assms(1) floats_defined [of "map mean64 ?vs"] by auto
  have "\<forall>q \<in> set ?vs. second_moment64 (\<lambda>x. Inr (square' x)) q =
          Inr (float_add (the (variance64 q)) (square' (the (mean64 q))))"
    using assms(1) by (auto simp: second_moment64_def)
  from sequence_map_Inr [OF this]
  have s: "sequence (map (second_moment64 (\<lambda>x. Inr (square' x))) ?vs) =
          Inr (map (\<lambda>q. float_add (the (variance64 q)) (square' (the (mean64 q)))) ?vs)" .
  show ?thesis
    using False list_ex_filter_valid64 [OF False]
    by (simp add: aggregate_float64_def Let_def m s)
qed

lemma predict_float64_rows:
  assumes "sequence (map (\<lambda>t. tree_predict64 t (translate X)) (decision_trees self)) =
             Inr predictions"
      and "\<forall>p \<in> set predictions. length (rows (translate X)) \<le> length p"
      and "\<forall>p \<in> set predictions. \<forall>q \<in> set p.
             valid64 q \<longrightarrow> mean64 q \<noteq> None \<and> variance64 q \<noteq> None"
      and "target_dimension_names self \<noteq> []"
  shows "predict_float64 translate tree_predict64 (\<lambda>x. Inr (square' x)) square self X =
     Inr (map (\<lambda>r. let vs = filter valid64 (map (\<lambda>p. p ! r) predictions)
                    in if vs = []
                       then \<lparr>target_name64 = hd (target_dimension_names self), valid64 = False,
                             mean64 = None, variance64 = None, count64 = None\<rparr>
                       else \<lparr>target_name64 = target_name64 (hd vs),
                             valid64 = True,
                             mean64 = Some (np_mean_float64 (map (the \<circ> mean64) vs)),
                             variance64 =
                               Some (float_sub
                                       (np_mean_float64
                                          (map (\<lambda>q. float_add (the (variance64 q))
                                                       (square' (the (mean64 q))))
                                             vs))
                                       (square (np_mean_float64 (map (the \<circ> mean64) vs)))),
                             count64 = Some (length vs)\<rparr>)
            [0 ..< length (rows (translate X))])"
    (is "_ = Inr (map ?agg _)")
proof -
  let ?n = "length (rows (translate X))"
  let ?f = "\<lambda>observation_id.
              case sequence (map (\<lambda>p. nth_checked p observation_id) predictions) of
                Inl e \<Rightarrow> Inl e
              | Inr member_predictions \<Rightarrow>
                  aggregate_float64 (\<lambda>x. Inr (square' x)) square (target_dimension_names self)
                    member_predictions"
  have "\<forall>r \<in> set [0 ..< ?n]. ?f r = Inr (?agg r)"
  proof
    fix r assume "r \<in> set [0 ..< ?n]"
    then have r: "r < ?n" by simp
    with assms(2) have "\<forall>p \<in> set predictions. nth_checked p r = Inr (p ! r)"
      by (auto simp: nth_checked_def)
    from sequence_map_Inr [OF this]
    have sq: "sequence (map (\<lambda>p. nth_checked p r) predictions) = Inr (map (\<lambda>p. p ! r) predictions)" .
    let ?ms = "map (\<lambda>p. p ! r) predictions"
    have c: "\<forall>q \<in> set ?ms. valid64 q \<longrightarrow> mean64 q \<noteq> None \<and> variance64 q \<noteq> None"
    proof
      fix q assume "q \<in> set ?ms"
      then obtain p where p: "p \<in> set predictions" "q = p ! r" by auto
      with assms(2) r have "r < length p" by fastforce
      then have "q \<in> set p" using p(2) by simp
      with assms(3) p(1) show "valid64 q \<longrightarrow> mean64 q \<noteq> None \<and> variance64 q \<noteq> None" by blast
    qed
    from aggregate_float64_shape [OF c assms(4), of square' square] sq
    show "?f r = Inr (?agg r)" by simp
  qed
  from sequence_map_Inr [OF this] assms(1) show ?thesis
    by (simp add: predict_float64_def Let_def)
qed

subsection \<open>Rounding to a float\<close>

lemma floor_log2_eq:
  assumes "2 powi e \<le> \<bar>x\<bar>" and "\<bar>x\<bar> < 2 powi (e + 1)"
  shows "\<lfloor>log 2 \<bar>x\<bar>\<rfloor> = e"
proof -
  have "(0::real) < 2 powi e" by simp
  with assms(1) have pos: "0 < \<bar>x\<bar>" by linarith
  have p1: "(2::real) powr (real_of_int e) = 2 powi e"
    by (rule powr_real_of_int') simp_all
  have "(2::real) powr (real_of_int (e + 1)) = 2 powi (e + 1)"
    by (rule powr_real_of_int') simp_all
  then have p2: "(2::real) powr (real_of_int e + 1) = 2 powi (e + 1)" by simp
  have "2 powr (real_of_int e) \<le> \<bar>x\<bar> \<and> \<bar>x\<bar> < 2 powr (real_of_int e + 1)"
    using assms by (simp only: p1 p2)
  then show ?thesis
    using floor_log_eq_powr_iff [of "\<bar>x\<bar>" 2 e] pos by simp
qed

lemma round64_eq:
  assumes "2 powi e \<le> \<bar>x\<bar>" and "\<bar>x\<bar> < 2 powi (e + 1)" and "- 1022 \<le> e"
      and "round_half_even (x / 2 powi (e - 52)) = n"
      and "y = of_int n * 2 powi (e - 52)"
      and "\<bar>y\<bar> < 2 ^ 1024"
  shows "round64 x = Finite y"
proof -
  have "(0::real) < 2 powi e" by simp
  with assms(1) have "0 < \<bar>x\<bar>" by linarith
  then have nz: "x \<noteq> 0" by simp
  have "max \<lfloor>log 2 \<bar>x\<bar>\<rfloor> (- 1022) = e"
    using floor_log2_eq [OF assms(1,2)] assms(3) by simp
  then show ?thesis
    using nz assms(4,5,6) by (simp add: round64_def Let_def)
qed

lemma pairwise_sum_short: "length xs < 8 \<Longrightarrow> pairwise_sum xs = add_all (Finite 0) xs"
  by (subst pairwise_sum.simps) simp

lemma round_half_even_ge_floor: "\<lfloor>x\<rfloor> \<le> round_half_even x"
  by (simp add: round_half_even_def Let_def)

lemma round64_overflow:
  assumes "2 ^ 1024 \<le> x"
  shows "round64 x = PosInf"
proof -
  have pos: "0 < x" using assms by (smt (verit) zero_less_power)
  define e where "e = \<lfloor>log 2 x\<rfloor>"
  have "(2::real) powr (real 1024) = 2 ^ 1024" by (rule powr_realpow) simp
  then have "(2::real) powr 1024 \<le> x" using assms by (simp only: of_nat_numeral)
  then have "1024 \<le> log 2 x" using pos le_log_iff [of 2 x 1024] by simp
  then have e1024: "1024 \<le> e" unfolding e_def using pos by (simp add: le_floor_iff)
  have "of_int e \<le> log 2 x" unfolding e_def using pos by simp
  then have "2 powr (of_int e) \<le> x" using pos by (simp add: le_log_iff)
  moreover have "(2::real) powr (real_of_int e) = 2 powi e"
    by (rule powr_real_of_int') simp_all
  ultimately have le: "2 powi e \<le> x" by simp
  let ?ulp = "(2::real) powi (e - 52)"
  have ulp: "0 < ?ulp" by simp
  have split: "(2::real) powi e = 2 ^ 52 * ?ulp"
    by (simp add: power_int_diff)
  then have "2 ^ 52 \<le> x / ?ulp" using le ulp by (simp add: le_divide_eq)
  then have "(2 ^ 52 :: int) \<le> \<lfloor>x / ?ulp\<rfloor>" by (simp add: le_floor_iff)
  with round_half_even_ge_floor [of "x / ?ulp"]
  have "(2 ^ 52 :: int) \<le> round_half_even (x / ?ulp)" by linarith
  then have "(2 ^ 52 :: real) \<le> of_int (round_half_even (x / ?ulp))"
    by (metis of_int_le_iff of_int_numeral of_int_power)
  then have "2 ^ 52 * ?ulp \<le> of_int (round_half_even (x / ?ulp)) * ?ulp"
    using ulp by (simp add: mult_right_mono)
  with split have big: "2 powi e \<le> of_int (round_half_even (x / ?ulp)) * ?ulp" by simp
  have "(2::real) ^ 1024 \<le> 2 powi e"
    using e1024 power_int_increasing [of 1024 e "2::real"] by simp
  with big have y: "2 ^ 1024 \<le> \<bar>of_int (round_half_even (x / ?ulp)) * ?ulp\<bar>" by linarith
  have m: "max e (- 1022) = e" using e1024 by simp
  show ?thesis
    using pos y m unfolding e_def by (simp add: round64_def Let_def)
qed

text \<open>
  A member's mean whose square overflows. When the members' means are Python floats,
  \<^verbatim>\<open>prediction.mean ** 2\<close> raises \<^verbatim>\<open>OverflowError\<close> and so does \<^verbatim>\<open>predict\<close>. When they are
  numpy floats the squares are infinite, and the variance is an infinity minus an
  infinity, which is not a number.
\<close>

lemma predict_float64_overflow:
  "predict_float64 (\<lambda>df. df) (\<lambda>tree _. Inr tree) python_square rounded_square two_huge one_query =
     Inl OverflowError"
proof -
  have "(2::real) ^ 1024 \<le> 2 ^ 600 * 2 ^ 600" by simp
  then have r: "round64 (2 ^ 600 * 2 ^ 600) = PosInf" by (rule round64_overflow)
  have s: "\<And>c. second_moment64 python_square
             \<lparr>target_name64 = ''y'', valid64 = True, mean64 = Some (Finite (2 ^ 600)),
              variance64 = Some (Finite 0), count64 = c\<rparr> = Inl OverflowError"
    using r by (simp add: second_moment64_def)
  show ?thesis
    using s
    by (simp add: predict_float64_def aggregate_float64_def two_huge_def one_query_def
        Let_def numeral_2_eq_2 nth_checked_def del: python_square.simps)
qed

lemma predict_float64_not_a_number:
  "predict_float64 (\<lambda>df. df) (\<lambda>tree _. Inr tree) numpy_square rounded_square two_huge one_query =
     Inr [\<lparr>target_name64 = ''y'', valid64 = True, mean64 = Some (Finite (2 ^ 600)),
           variance64 = Some NaN, count64 = Some 2\<rparr>]"
proof -
  have "(2::real) ^ 1024 \<le> 2 ^ 600 * 2 ^ 600" by simp
  then have r: "round64 (2 ^ 600 * 2 ^ 600) = PosInf" by (rule round64_overflow)
  have r1: "round64 (2 ^ 600) = Finite (2 ^ 600)"
    by (rule round64_eq [where e = 600 and n = "2 ^ 52"])
      (simp_all add: round_half_even_def power_int_minus)
  have r2: "round64 (2 ^ 600 + 2 ^ 600) = Finite (2 ^ 601)"
    by (rule round64_eq [where e = 601 and n = "2 ^ 52"])
      (simp_all add: round_half_even_def power_int_minus)
  have r3: "round64 (2 ^ 601) = Finite (2 ^ 601)"
    by (rule round64_eq [where e = 601 and n = "2 ^ 52"])
      (simp_all add: round_half_even_def power_int_minus)
  have r4: "round64 (2 ^ 601 / 2) = Finite (2 ^ 600)"
    by (rule round64_eq [where e = 600 and n = "2 ^ 52"])
      (simp_all add: round_half_even_def power_int_minus)
  have m: "np_mean_float64 [Finite (2 ^ 600), Finite (2 ^ 600)] = Finite (2 ^ 600)"
    using r1 r2 r3 r4 by (simp add: np_mean_float64_def pairwise_sum_short)
  have s: "\<And>c. second_moment64 numpy_square
             \<lparr>target_name64 = ''y'', valid64 = True, mean64 = Some (Finite (2 ^ 600)),
              variance64 = Some (Finite 0), count64 = c\<rparr> = Inr PosInf"
    using r by (simp add: second_moment64_def numpy_square_def)
  have q: "rounded_square (Finite (2 ^ 600)) = PosInf" using r by simp
  have v: "np_mean_float64 [PosInf, PosInf] = PosInf"
    by (simp add: np_mean_float64_def pairwise_sum_short)
  show ?thesis
    using m s q v
    by (simp add: predict_float64_def aggregate_float64_def two_huge_def one_query_def
        Let_def numeral_2_eq_2 nth_checked_def float_sub_def del: rounded_square.simps)
qed

subsection \<open>Claims about prediction\<close>




text \<open>
  Claim C9: on a row that \<^verbatim>\<open>predict\<close> answers, with at least one valid member prediction
  and no negative variance among the valid ones, the aggregate variance
  \<open>mean (variance + mean\<^sup>2) - (mean of the means)\<^sup>2\<close> is not negative. The numbers are reals:
  the arithmetic is exact.
\<close>

theorem predict_variance_nonnegative:
  assumes "sequence (map (\<lambda>t. tree_predict ops t (translate_input ops X)) (decision_trees self)) =
             Inr predictions"
      and "predict ops self X = Inr ps"
      and "r < length ps"
      and "\<exists>p \<in> set predictions. valid (p ! r)"
      and "\<forall>p \<in> set predictions. valid (p ! r) \<longrightarrow> (\<exists>v. variance (p ! r) = Some v \<and> 0 \<le> v)"
  shows "\<exists>v. variance (ps ! r) = Some v \<and> 0 \<le> v
           \<and> v = np_mean (map (\<lambda>q. the (variance q) + (the (mean q))\<^sup>2)
                            (filter valid (map (\<lambda>p. p ! r) predictions)))
                  - (np_mean (map (the \<circ> mean) (filter valid (map (\<lambda>p. p ! r) predictions))))\<^sup>2"
proof -
  let ?ms = "map (\<lambda>p. p ! r) predictions"
  let ?vs = "filter valid ?ms"
  from predict_row [OF assms(1,2)] assms(3)
  have a: "aggregate (target_dimension_names self) ?ms = Inr (ps ! r)" by simp
  from assms(4) have ne: "?vs \<noteq> []" by (auto simp: filter_empty_conv)
  from aggregate_some_valid [OF ne aggregate_Inr_complete [OF a ne], of "target_dimension_names self"] a
  have var: "variance (ps ! r) =
      Some (np_mean (map (\<lambda>q. the (variance q) + (the (mean q))\<^sup>2) ?vs)
             - (np_mean (map (the \<circ> mean) ?vs))\<^sup>2)"
    by auto
  have "\<forall>q \<in> set ?vs. 0 \<le> (the \<circ> variance) q"
    using assms(5) by auto
  from total_variance_nonnegative [OF ne this, of "the \<circ> mean"]
  have "0 \<le> np_mean (map (\<lambda>q. the (variance q) + (the (mean q))\<^sup>2) ?vs)
             - (np_mean (map (the \<circ> mean) ?vs))\<^sup>2"
    by (simp add: comp_def)
  with var show ?thesis by simp
qed

theorem predict_variance_nonnegative_witness:
  "(\<exists>p \<in> set (decision_trees three_members). valid (p ! 0))
   \<and> (\<exists>v. variance
             ([\<lparr>target_name = ''y'', valid = True, mean = Some 2, variance = Some 2, count = Some 2\<rparr>,
               \<lparr>target_name = ''y'', valid = False, mean = None, variance = None, count = None\<rparr>]
              ! 0) = Some v \<and> 0 \<le> v \<and> v = 2)"
proof -
  have 3: "0 < length
             [\<lparr>target_name = ''y'', valid = True, mean = Some 2, variance = Some 2, count = Some 2\<rparr>,
              \<lparr>target_name = ''y'', valid = False, mean = None, variance = None, count = None\<rparr>]"
    by simp
  have 4: "\<exists>p \<in> set (decision_trees three_members). valid (p ! 0)"
    by (simp add: three_members_def)
  have 5: "\<forall>p \<in> set (decision_trees three_members).
             valid (p ! 0) \<longrightarrow> (\<exists>v. variance (p ! 0) = Some v \<and> 0 \<le> v)"
    by (simp add: three_members_def no_prediction_def)
  from predict_variance_nonnegative [OF three_members_predictions three_members_predict 3 4 5] 4
  show ?thesis by auto
qed

section \<open>The forest: fitting\<close>

subsection \<open>The selection and the loop\<close>

lemma select_observation_ids_returns:
  assumes "generator_in_range ops" and "0 \<le> n" and "0 \<le> k"
  shows "\<exists>ids g'. select_observation_ids ops i n k g = Inr (ids, g')
           \<and> length ids = nat (min n k) \<and> (\<forall>id \<in> set ids. 0 \<le> id \<and> id < n)"
proof (cases "min n k = 0")
  case True
  then show ?thesis
    by (simp add: select_observation_ids_def np_random_randint_def)
next
  case False
  with assms(2,3) have pos: "0 < n" "0 < min n k" by auto
  obtain ks g' where d: "bounded_integers ops (seed ops i) (nat n) (nat (min n k)) = (ks, g')"
    by (cases "bounded_integers ops (seed ops i) (nat n) (nat (min n k))") auto
  from assms(1) pos(1) d have c: "length ks = nat (min n k)" "list_all (\<lambda>k. k < nat n) ks"
    unfolding generator_in_range_def
    by (metis fst_conv zero_less_nat_eq)+
  have "select_observation_ids ops i n k g = Inr (map int ks, g')"
    using pos False d by (simp add: select_observation_ids_def np_random_randint_def Let_def)
  moreover have "\<forall>id \<in> set (map int ks). 0 \<le> id \<and> id < n"
    using c(2) by (auto simp: list_all_iff)
  ultimately show ?thesis using c(1) by auto
qed

lemma select_observation_ids_reseeded:
  "select_observation_ids ops i n k g1 = select_observation_ids ops i n k g2"
  by (simp add: select_observation_ids_def)

lemma fit_tree_reseeded:
  "fit_tree ops fv tv k i tree g1 = fit_tree ops fv tv k i tree g2"
  unfolding fit_tree_def select_observation_ids_def by (rule refl)

lemma fit_trees_reseeded:
  "map_sum id fst (fit_trees ops fv tv k i trees g1) = map_sum id fst (fit_trees ops fv tv k i trees g2)"
proof (cases trees)
  case Nil
  then show ?thesis by simp
next
  case (Cons tree rest)
  then show ?thesis by (simp add: fit_tree_reseeded [of ops fv tv k i tree g1 g2])
qed

lemma fit_trees_nth:
  "fit_trees ops fv tv k i0 trees g = Inr (trees', g') \<Longrightarrow>
   length trees' = length trees
   \<and> (\<forall>j < length trees. \<exists>gj. fit_tree ops fv tv k (i0 + j) (trees ! j) g0 = Inr (trees' ! j, gj))"
proof (induction trees arbitrary: i0 g trees')
  case Nil
  then show ?case by simp
next
  case (Cons tree rest)
  from Cons.prems obtain t1 g1 ts where
    s: "fit_tree ops fv tv k i0 tree g = Inr (t1, g1)"
       "fit_trees ops fv tv k (Suc i0) rest g1 = Inr (ts, g')" "trees' = t1 # ts"
    by (auto split: sum.splits prod.splits)
  from Cons.IH [OF s(2)] have ih: "length ts = length rest"
    "\<forall>j < length rest. \<exists>gj. fit_tree ops fv tv k (Suc i0 + j) (rest ! j) g0 = Inr (ts ! j, gj)"
    by auto
  have first: "fit_tree ops fv tv k i0 tree g0 = Inr (t1, g1)"
    using s(1) fit_tree_reseeded [of ops fv tv k i0 tree g0 g] by simp
  have "\<forall>j < length (tree # rest).
          \<exists>gj. fit_tree ops fv tv k (i0 + j) ((tree # rest) ! j) g0 = Inr (trees' ! j, gj)"
  proof (intro allI impI)
    fix j assume j: "j < length (tree # rest)"
    show "\<exists>gj. fit_tree ops fv tv k (i0 + j) ((tree # rest) ! j) g0 = Inr (trees' ! j, gj)"
    proof (cases j)
      case 0
      with first s(3) show ?thesis by simp
    next
      case (Suc j')
      with j ih(2) s(3) show ?thesis by simp
    qed
  qed
  with ih(1) s(3) show ?case by simp
qed

lemma fit_tree_unready:
  assumes "generator_in_range ops" and "0 \<le> k"
      and "filter_observations fv (input_dimension_names ops tree) = Inr filtered"
      and "\<not> should_fit ops tree (nat (min (int (length (rows filtered))) k))"
  shows "\<exists>g2. fit_tree ops fv tv k i tree g = Inr (tree, g2)"
proof -
  from select_observation_ids_returns [OF assms(1) _ assms(2), of "int (length (rows filtered))" i g]
  obtain ids g2 where
    "select_observation_ids ops i (int (length (rows filtered))) k g = Inr (ids, g2)"
    "length ids = nat (min (int (length (rows filtered))) k)"
    by auto
  with assms(3,4) show ?thesis by (simp add: fit_tree_def Let_def)
qed

lemma fit_trees_all_unready:
  assumes "generator_in_range ops" and "0 \<le> k"
      and "\<forall>tree \<in> set trees. \<exists>filtered.
             filter_observations fv (input_dimension_names ops tree) = Inr filtered
             \<and> \<not> should_fit ops tree (nat (min (int (length (rows filtered))) k))"
  shows "\<exists>g'. fit_trees ops fv tv k i trees g = Inr (trees, g')"
  using assms(3)
proof (induction trees arbitrary: i g)
  case Nil
  then show ?case by simp
next
  case (Cons tree rest)
  then obtain filtered where
    f: "filter_observations fv (input_dimension_names ops tree) = Inr filtered"
       "\<not> should_fit ops tree (nat (min (int (length (rows filtered))) k))"
    by auto
  from fit_tree_unready [OF assms(1,2) f, of tv i g]
  obtain g2 where g2: "fit_tree ops fv tv k i tree g = Inr (tree, g2)" by blast
  from Cons.IH [of "Suc i" g2] Cons.prems
  obtain g' where "fit_trees ops fv tv k (Suc i) rest g2 = Inr (rest, g')" by auto
  with g2 show ?case by simp
qed

lemma recording_forest_in_range: "generator_in_range recording_forest"
  by (simp add: generator_in_range_def recording_forest_def list_all_iff)

lemma fit_reseeded:
  "map_sum id fst (fit ops self X Y g1) = map_sum id fst (fit ops self X Y g2)"
proof -
  let ?fv = "translate_input ops X" and ?tv = "translate_output ops Y"
  let ?k = "\<lceil>samples_fraction_per_estimator (model_config self) * real (length (rows ?fv))\<rceil>"
  have "map_sum id fst (fit_trees ops ?fv ?tv ?k 0 (decision_trees self) g1) =
        map_sum id fst (fit_trees ops ?fv ?tv ?k 0 (decision_trees self) g2)"
    by (rule fit_trees_reseeded)
  then show ?thesis
    by (auto simp: fit_def Let_def split: sum.splits)
qed

subsection \<open>Claims about fitting\<close>

text \<open>
  Claim C2 says that a member is fitted on feature rows and target rows of the same
  observations. The code selects the feature rows by position in the member's filtered
  table and the target rows by the same positions in the unfiltered target table. Here
  the first of two observations lacks \<open>x\<close>: the member is fitted on the features of the
  observation labelled 1 and on the target of the observation labelled 0. (One row is left
  after filtering, so position 0 is the only one any generator can draw.)
\<close>

theorem fit_pairs_features_with_other_targets:
  "map_sum id (decision_trees \<circ> fst)
     (fit recording_forest unit_forest features_with_gap targets_of_two 0) =
   Inr [Some (\<lparr>columns = [''x''], rows = [(1, [Some 5])]\<rparr>,
              \<lparr>columns = [''y''], rows = [(0, [Some 10])]\<rparr>)]"
  by (simp add: fit_def recording_forest_def unit_forest_def features_with_gap_def
        targets_of_two_def fit_tree_def filter_observations_def select_columns_def
        notnull_rows_def cell_of_def select_observation_ids_def np_random_randint_def iloc_def
        Let_def)

text \<open>
  Claim C3: with a samples fraction that is not negative, a member whose readiness check
  refuses the number of selected rows (which is 0 when filtering leaves no row: no sample
  is drawn then, and nothing is raised) is left as it is, and the loop goes on to the next
  member; the round raises nothing. When the check refuses every member, \<^verbatim>\<open>fit\<close> returns
  with the forest unchanged. \<open>k\<close> is \<^verbatim>\<open>num_observations_per_estimator\<close>.
\<close>

theorem fit_leaves_unready_member_untrained:
  assumes "generator_in_range ops"
      and "0 \<le> samples_fraction_per_estimator (model_config self)"
      and "feature_values = translate_input ops X"
      and "k = \<lceil>samples_fraction_per_estimator (model_config self)
                  * real (length (rows feature_values))\<rceil>"
  shows "(\<forall>tree filtered.
            filter_observations feature_values (input_dimension_names ops tree) = Inr filtered
            \<and> \<not> should_fit ops tree (nat (min (int (length (rows filtered))) k)) \<longrightarrow>
            (\<exists>g2. fit_tree ops feature_values target_values k i tree g = Inr (tree, g2)
               \<and> fit_trees ops feature_values target_values k i (tree # trees) g =
                   (case fit_trees ops feature_values target_values k (Suc i) trees g2 of
                      Inl e \<Rightarrow> Inl e
                    | Inr (trees', g'') \<Rightarrow> Inr (tree # trees', g''))))
         \<and> ((\<forall>tree \<in> set (decision_trees self). \<exists>filtered.
               filter_observations feature_values (input_dimension_names ops tree) = Inr filtered
               \<and> \<not> should_fit ops tree (nat (min (int (length (rows filtered))) k))) \<longrightarrow>
             (\<exists>g'. fit ops self X Y g = Inr (self, g')))"
proof -
  have "0 \<le> samples_fraction_per_estimator (model_config self)
               * real (length (rows feature_values))"
    using assms(2) by simp
  from ceiling_mono [OF this] have k: "0 \<le> k"
    unfolding assms(4) by simp
  have one: "\<forall>tree filtered.
            filter_observations feature_values (input_dimension_names ops tree) = Inr filtered
            \<and> \<not> should_fit ops tree (nat (min (int (length (rows filtered))) k)) \<longrightarrow>
            (\<exists>g2. fit_tree ops feature_values target_values k i tree g = Inr (tree, g2)
               \<and> fit_trees ops feature_values target_values k i (tree # trees) g =
                   (case fit_trees ops feature_values target_values k (Suc i) trees g2 of
                      Inl e \<Rightarrow> Inl e
                    | Inr (trees', g'') \<Rightarrow> Inr (tree # trees', g'')))"
  proof (intro allI impI)
    fix tree filtered
    assume h: "filter_observations feature_values (input_dimension_names ops tree) = Inr filtered
            \<and> \<not> should_fit ops tree (nat (min (int (length (rows filtered))) k))"
    from fit_tree_unready [OF assms(1) k, of feature_values tree filtered target_values i g] h
    obtain g2 where "fit_tree ops feature_values target_values k i tree g = Inr (tree, g2)" by blast
    then show "\<exists>g2. fit_tree ops feature_values target_values k i tree g = Inr (tree, g2)
               \<and> fit_trees ops feature_values target_values k i (tree # trees) g =
                   (case fit_trees ops feature_values target_values k (Suc i) trees g2 of
                      Inl e \<Rightarrow> Inl e
                    | Inr (trees', g'') \<Rightarrow> Inr (tree # trees', g''))"
      by (auto split: sum.splits)
  qed
  have all: "(\<forall>tree \<in> set (decision_trees self). \<exists>filtered.
               filter_observations feature_values (input_dimension_names ops tree) = Inr filtered
               \<and> \<not> should_fit ops tree (nat (min (int (length (rows filtered))) k))) \<longrightarrow>
             (\<exists>g'. fit ops self X Y g = Inr (self, g'))"
  proof
    assume "\<forall>tree \<in> set (decision_trees self). \<exists>filtered.
               filter_observations feature_values (input_dimension_names ops tree) = Inr filtered
               \<and> \<not> should_fit ops tree (nat (min (int (length (rows filtered))) k))"
    from fit_trees_all_unready [OF assms(1) k this, of "translate_output ops Y" 0 g]
    obtain g' where "fit_trees ops feature_values (translate_output ops Y) k 0 (decision_trees self) g
                       = Inr (decision_trees self, g')" by blast
    then have "fit ops self X Y g = Inr (self, g')"
      using assms(3,4) by (simp add: fit_def Let_def)
    then show "\<exists>g'. fit ops self X Y g = Inr (self, g')" by blast
  qed
  from one all show ?thesis by blast
qed

theorem fit_leaves_unready_member_untrained_witness:
  "generator_in_range recording_forest
   \<and> filter_observations features_all_missing (input_dimension_names recording_forest None) =
       Inr \<lparr>columns = [''x''], rows = []\<rparr>
   \<and> \<not> should_fit recording_forest None 0
   \<and> (\<exists>g2. fit_tree recording_forest features_all_missing targets_of_two 2 0 None 7 = Inr (None, g2))
   \<and> (\<exists>g'. fit recording_forest unit_forest features_all_missing targets_of_two 7 =
              Inr (unit_forest, g'))"
proof -
  let ?k = "\<lceil>samples_fraction_per_estimator (model_config unit_forest)
              * real (length (rows features_all_missing))\<rceil>"
  have k: "?k = 2" by (simp add: unit_forest_def features_all_missing_def)
  have 2: "0 \<le> samples_fraction_per_estimator (model_config unit_forest)"
    by (simp add: unit_forest_def)
  have 3: "features_all_missing = translate_input recording_forest features_all_missing"
    by (simp add: recording_forest_def)
  have f: "filter_observations features_all_missing (input_dimension_names recording_forest None) =
       Inr \<lparr>columns = [''x''], rows = []\<rparr>"
    by (simp add: filter_observations_def select_columns_def notnull_rows_def cell_of_def
          recording_forest_def features_all_missing_def)
  have s: "\<not> should_fit recording_forest None 0" by (simp add: recording_forest_def)
  have u: "\<not> should_fit recording_forest None
             (nat (min (int (length (rows \<lparr>columns = [''x''], rows = []\<rparr>))) 2))"
    using s by simp
  have a: "\<forall>tree \<in> set (decision_trees unit_forest). \<exists>filtered.
             filter_observations features_all_missing (input_dimension_names recording_forest tree) =
               Inr filtered
             \<and> \<not> should_fit recording_forest tree (nat (min (int (length (rows filtered))) 2))"
    using f u by (simp add: unit_forest_def)
  from fit_leaves_unready_member_untrained
         [where ops = recording_forest and self = unit_forest and X = features_all_missing
            and feature_values = features_all_missing and k = 2
            and target_values = targets_of_two and i = 0 and trees = "[]" and g = 7
            and Y = targets_of_two,
          OF recording_forest_in_range 2 3 k [symmetric]]
       f u a s recording_forest_in_range
  show ?thesis by blast
qed

text \<open>
  Claim C4: the generator is reseeded with the member's index before the draw, so the
  positions selected for member \<open>i\<close> do not depend on the generator's state when the round
  begins: not on earlier rounds, not on what a member's own \<^verbatim>\<open>fit\<close> drew. They are
  \<open>min n k\<close> positions below \<open>n\<close>, each drawn from the whole range (so a position may
  repeat), where \<open>n\<close> is the number of filtered rows. Hence a round, and the forest \<^verbatim>\<open>fit\<close>
  returns, are the same from any two generator states, and what \<^verbatim>\<open>fit\<close> makes of member
  \<open>j\<close> is what the round for \<open>j\<close> alone makes of it, with
  \<open>k = \<lceil>samples_fraction_per_estimator * total rows\<rceil>\<close>.
\<close>

theorem fit_selection_reseeded_per_member:
  assumes "generator_in_range ops"
  shows "select_observation_ids ops i n k g1 = select_observation_ids ops i n k g2
         \<and> (0 \<le> n \<and> 0 \<le> k \<longrightarrow>
              (\<exists>ids g'. select_observation_ids ops i n k g1 = Inr (ids, g')
                 \<and> length ids = nat (min n k) \<and> (\<forall>id \<in> set ids. 0 \<le> id \<and> id < n)))
         \<and> fit_tree ops feature_values target_values k i tree g1 =
             fit_tree ops feature_values target_values k i tree g2
         \<and> map_sum id fst (fit ops self X Y g1) = map_sum id fst (fit ops self X Y g2)
         \<and> (\<forall>self' g'. fit ops self X Y g1 = Inr (self', g') \<longrightarrow>
              (\<forall>j < length (decision_trees self).
                 \<exists>gj. fit_tree ops (translate_input ops X) (translate_output ops Y)
                        \<lceil>samples_fraction_per_estimator (model_config self)
                           * real (length (rows (translate_input ops X)))\<rceil>
                        j (decision_trees self ! j) g2 =
                      Inr (decision_trees self' ! j, gj)))"
proof (intro conjI allI impI)
  show "select_observation_ids ops i n k g1 = select_observation_ids ops i n k g2"
    by (rule select_observation_ids_reseeded)
  show "fit_tree ops feature_values target_values k i tree g1 =
        fit_tree ops feature_values target_values k i tree g2"
    by (rule fit_tree_reseeded)
  show "map_sum id fst (fit ops self X Y g1) = map_sum id fst (fit ops self X Y g2)"
    by (rule fit_reseeded)
next
  assume "0 \<le> n \<and> 0 \<le> k"
  with select_observation_ids_returns [OF assms, of n k i g1]
  show "\<exists>ids g'. select_observation_ids ops i n k g1 = Inr (ids, g')
          \<and> length ids = nat (min n k) \<and> (\<forall>id \<in> set ids. 0 \<le> id \<and> id < n)"
    by simp
next
  fix self' g' j
  let ?fv = "translate_input ops X" and ?tv = "translate_output ops Y"
  let ?k = "\<lceil>samples_fraction_per_estimator (model_config self) * real (length (rows ?fv))\<rceil>"
  assume f: "fit ops self X Y g1 = Inr (self', g')" and j: "j < length (decision_trees self)"
  from f obtain trees' where
    t: "fit_trees ops ?fv ?tv ?k 0 (decision_trees self) g1 = Inr (trees', g')"
       "self' = self\<lparr>decision_trees := trees'\<rparr>"
    by (auto simp: fit_def Let_def split: sum.splits)
  from fit_trees_nth [OF t(1), of g2] j t(2)
  show "\<exists>gj. fit_tree ops ?fv ?tv ?k j (decision_trees self ! j) g2 =
              Inr (decision_trees self' ! j, gj)"
    by simp
qed

theorem fit_selection_reseeded_per_member_witness:
  "generator_in_range recording_forest
   \<and> select_observation_ids recording_forest 1 3 2 5 = select_observation_ids recording_forest 1 3 2 9
   \<and> select_observation_ids recording_forest 1 3 2 5 = Inr ([1, 2], 3)
   \<and> map_sum id fst (fit recording_forest unit_forest features_with_gap targets_of_two 5) =
       map_sum id fst (fit recording_forest unit_forest features_with_gap targets_of_two 9)"
proof -
  have e: "select_observation_ids recording_forest 1 3 2 5 = Inr ([1, 2], 3)"
    by (simp add: select_observation_ids_def np_random_randint_def recording_forest_def
          upt_conv_Cons)
  from fit_selection_reseeded_per_member
         [where ops = recording_forest and i = 1 and n = 3 and k = 2 and ?g1.0 = 5 and ?g2.0 = 9
            and feature_values = features_with_gap and target_values = targets_of_two
            and tree = None and self = unit_forest and X = features_with_gap
            and Y = targets_of_two,
          OF recording_forest_in_range]
       e recording_forest_in_range
  show ?thesis by simp
qed

end
